theory Spec2Isabelle
  imports Main "HOL-Library.Sublist"
begin

section \<open>Python strings\<close>

text \<open>
  A Python \<open>str\<close> is a \<^typ>\<open>string\<close>. The texts and keywords of this program are ASCII, and
  \<open>str.lower\<close> and \<open>str.title\<close> are modelled on ASCII: the letters \<open>A\<close>..\<open>Z\<close> and \<open>a\<close>..\<open>z\<close>
  change case, every other character is left alone. The substring test \<open>needle in haystack\<close>
  is \<^const>\<open>sublist\<close> (a contiguous occurrence).
\<close>

definition upper_letters :: string where
  "upper_letters = ''ABCDEFGHIJKLMNOPQRSTUVWXYZ''"

definition lower_letters :: string where
  "lower_letters = ''abcdefghijklmnopqrstuvwxyz''"

definition is_cased :: "char \<Rightarrow> bool" where
  "is_cased c = (List.member upper_letters c \<or> List.member lower_letters c)"

definition lower_char :: "char \<Rightarrow> char" where
  "lower_char c = (case map_of (zip upper_letters lower_letters) c of None \<Rightarrow> c | Some l \<Rightarrow> l)"

definition upper_char :: "char \<Rightarrow> char" where
  "upper_char c = (case map_of (zip lower_letters upper_letters) c of None \<Rightarrow> c | Some u \<Rightarrow> u)"

definition lower :: "string \<Rightarrow> string" where
  "lower s = map lower_char s"

text \<open>\<open>str.title\<close>: a cased character is upper-cased when the character before it is not cased
  (or there is none) and lower-cased otherwise.\<close>

fun title_from :: "bool \<Rightarrow> string \<Rightarrow> string" where
  "title_from prev [] = []"
| "title_from prev (c # cs) =
     (if is_cased c
      then (if prev then lower_char c else upper_char c) # title_from True cs
      else c # title_from False cs)"

definition title :: "string \<Rightarrow> string" where
  "title s = title_from False s"

text \<open>\<open>sep.join(parts)\<close>.\<close>

fun join :: "string \<Rightarrow> string list \<Rightarrow> string" where
  "join sep [] = []"
| "join sep [x] = x"
| "join sep (x # y # ys) = x @ sep @ join sep (y # ys)"

section \<open>Dictionaries and the object store\<close>

text \<open>
  A lead is a Python \<open>dict\<close> with string keys and string values, kept as an association list
  in insertion order. \<open>d.get(k)\<close> is \<^term>\<open>map_of d k\<close>, \<open>d.get(k, default)\<close> is \<open>get\<close>,
  \<open>d[k] = v\<close> is \<open>setitem\<close> (an existing key keeps its position). Two dicts are equal in Python
  when they have the same keys with the same values, in any order: \<open>dict_eq\<close>. Every value
  the collectors of this program store is a string, so \<open>str(v)\<close> is \<open>v\<close>.
\<close>

type_synonym dict = "(string \<times> string) list"

definition get :: "dict \<Rightarrow> string \<Rightarrow> string \<Rightarrow> string" where
  "get d k dflt = (case map_of d k of None \<Rightarrow> dflt | Some v \<Rightarrow> v)"

primrec setitem :: "dict \<Rightarrow> string \<Rightarrow> string \<Rightarrow> dict" where
  "setitem [] k v = [(k, v)]"
| "setitem (p # ps) k v = (if fst p = k then (k, v) # ps else p # setitem ps k v)"

definition dict_le :: "dict \<Rightarrow> dict \<Rightarrow> bool" where
  "dict_le a b = list_all (\<lambda>k. map_of a k = map_of b k) (map fst a)"

definition dict_eq :: "dict \<Rightarrow> dict \<Rightarrow> bool" where
  "dict_eq a b = (dict_le a b \<and> dict_le b a)"

text \<open>
  The filters receive a list of references to dict objects and write into those objects, and the
  list they return holds references to the same objects. The store maps a reference to the
  current contents of its object.
\<close>

type_synonym ref = nat
type_synonym store = "ref \<Rightarrow> dict"

text \<open>\<open>lead in filtered\<close> on a list of dict objects: some element is the same object or an
  equal dict.\<close>

definition py_in :: "store \<Rightarrow> ref \<Rightarrow> ref list \<Rightarrow> bool" where
  "py_in st r rs = list_ex (\<lambda>r'. r' = r \<or> dict_eq (st r') (st r)) rs"

section \<open>historical\_data\_collector.py\<close>

definition TARGET_COUNTIES :: "string list" where
  "TARGET_COUNTIES = [''Middlesex'', ''Norfolk'', ''Worcester'']"

definition TARGET_INDUSTRIES :: "string list" where
  "TARGET_INDUSTRIES =
    [''restaurant'', ''food service'', ''dining'', ''cafe'', ''bar'',
     ''healthcare'', ''hospital'', ''medical center'', ''clinic'', ''health'',
     ''school'', ''university'', ''college'', ''education'', ''academy'',
     ''hotel'', ''motel'', ''resort'', ''lodging'', ''inn'',
     ''country club'', ''golf club'', ''club'',
     ''assisted living'', ''nursing home'', ''senior living'', ''retirement'', ''55+'',
     ''fitness center'', ''gym'', ''health club'', ''wellness'']"

text \<open>The loop \<open>for keyword in keywords: if keyword.lower() in text: ...; break\<close> acts on the
  first keyword of the list whose lower-cased form occurs in the text.\<close>

definition first_keyword :: "string list \<Rightarrow> string \<Rightarrow> string option" where
  "first_keyword keywords text = find (\<lambda>keyword. sublist (lower keyword) text) keywords"

definition lead_text :: "dict \<Rightarrow> string" where
  "lead_text lead =
     join '' '' [get lead ''title'' [], get lead ''description'' [], get lead ''search_query'' []]"

definition industry_text :: "dict \<Rightarrow> string" where
  "industry_text lead = lower (lead_text lead)"

text \<open>
  The industry filters of the historical collector and of the production monitor are the same
  loop over different text fields; \<open>industries_loop\<close> takes the text function and the keyword list
  as parameters. A kept lead is written to (\<open>lead['matched_keyword'] = keyword\<close>) and its
  reference appended to \<open>filtered\<close>.
\<close>

fun industries_loop ::
  "(dict \<Rightarrow> string) \<Rightarrow> string list \<Rightarrow> store \<Rightarrow> ref list \<Rightarrow> ref list \<Rightarrow> store \<times> ref list" where
  "industries_loop text_of keywords st [] filtered = (st, filtered)"
| "industries_loop text_of keywords st (lead # leads) filtered =
     (case first_keyword keywords (text_of (st lead)) of
        None \<Rightarrow> industries_loop text_of keywords st leads filtered
      | Some keyword \<Rightarrow>
          industries_loop text_of keywords
            (st(lead := setitem (st lead) ''matched_keyword'' keyword)) leads (filtered @ [lead]))"

text \<open>\<open>HistoricalDataCollector.filter_by_target_industries\<close>, first with the keyword list as a
  parameter, then as the source has it, reading the module constant.\<close>

definition filter_industries :: "string list \<Rightarrow> store \<Rightarrow> ref list \<Rightarrow> store \<times> ref list" where
  "filter_industries keywords st leads = industries_loop industry_text keywords st leads []"


subsection \<open>The geography filter\<close>

definition cities :: "(string \<times> string list) list" where
  "cities =
    [(''Middlesex'', [''cambridge'', ''lowell'', ''newton'', ''somerville'', ''framingham'',
                      ''waltham'', ''malden'', ''medford'']),
     (''Norfolk'', [''quincy'', ''brookline'', ''weymouth'', ''needham'', ''milton'', ''braintree'']),
     (''Worcester'', [''worcester'', ''leominster'', ''fitchburg'', ''shrewsbury'',
                      ''marlborough''])]"

definition place_text :: "dict \<Rightarrow> string" where
  "place_text lead = join '' '' [get lead ''title'' [], get lead ''description'' []]"

definition county_text :: "dict \<Rightarrow> string" where
  "county_text lead = lower (place_text lead)"

definition first_county :: "string list \<Rightarrow> string \<Rightarrow> string option" where
  "first_county counties text = find (\<lambda>county. sublist (lower county) text) counties"

definition first_city :: "string list \<Rightarrow> string \<Rightarrow> string option" where
  "first_city city_list text = find (\<lambda>city. sublist city text) city_list"

text \<open>The first inner loop: the first county whose name occurs is written to the lead, and the
  lead is appended without any test.\<close>

definition county_step ::
  "string list \<Rightarrow> string \<Rightarrow> store \<Rightarrow> ref \<Rightarrow> ref list \<Rightarrow> store \<times> ref list" where
  "county_step counties text st lead filtered =
     (case first_county counties text of
        None \<Rightarrow> (st, filtered)
      | Some county \<Rightarrow> (st(lead := setitem (st lead) ''county'' county), filtered @ [lead]))"

text \<open>The nested loop over \<open>cities.items()\<close>, in the order of the dict literal. The \<open>break\<close> leaves
  the loop over one county's cities only; the loop over the counties goes on.\<close>

fun cities_loop ::
  "(string \<times> string list) list \<Rightarrow> string \<Rightarrow> store \<Rightarrow> ref \<Rightarrow> ref list \<Rightarrow> store \<times> ref list" where
  "cities_loop [] text st lead filtered = (st, filtered)"
| "cities_loop ((county, city_list) # rest) text st lead filtered =
     (case first_city city_list text of
        None \<Rightarrow> cities_loop rest text st lead filtered
      | Some city \<Rightarrow>
          (let st' = st(lead := setitem (setitem (st lead) ''county'' county) ''city'' (title city))
           in cities_loop rest text st' lead
                (if py_in st' lead filtered then filtered else filtered @ [lead])))"

definition counties_lead ::
  "string list \<Rightarrow> (string \<times> string list) list \<Rightarrow> store \<Rightarrow> ref \<Rightarrow> ref list \<Rightarrow> store \<times> ref list" where
  "counties_lead counties table st lead filtered =
     (let text = county_text (st lead)
      in case county_step counties text st lead filtered of
           (st1, filtered1) \<Rightarrow> cities_loop table text st1 lead filtered1)"

fun counties_loop ::
  "string list \<Rightarrow> (string \<times> string list) list \<Rightarrow> store \<Rightarrow> ref list \<Rightarrow> ref list \<Rightarrow> store \<times> ref list" where
  "counties_loop counties table st [] filtered = (st, filtered)"
| "counties_loop counties table st (lead # leads) filtered =
     (case counties_lead counties table st lead filtered of
        (st', filtered') \<Rightarrow> counties_loop counties table st' leads filtered')"

text \<open>\<open>HistoricalDataCollector.filter_by_target_counties\<close>, first with the county list and the
  city table as parameters, then as the source has it.\<close>

definition filter_counties ::
  "string list \<Rightarrow> (string \<times> string list) list \<Rightarrow> store \<Rightarrow> ref list \<Rightarrow> store \<times> ref list" where
  "filter_counties counties table st leads = counties_loop counties table st leads []"

definition filter_by_target_counties :: "store \<Rightarrow> ref list \<Rightarrow> store \<times> ref list" where
  "filter_by_target_counties st leads = filter_counties TARGET_COUNTIES cities st leads"

section \<open>lead\_monitor.py\<close>

definition LM_TARGET_INDUSTRIES :: "string list" where
  "LM_TARGET_INDUSTRIES =
    [''restaurant'', ''food service'', ''healthcare'', ''hospital'', ''school'',
     ''university'', ''college'', ''hotel'', ''country club'', ''assisted living'',
     ''nursing home'', ''senior living'', ''55+'', ''fitness center'', ''gym'']"

definition item_text :: "dict \<Rightarrow> string" where
  "item_text item =
     get item ''name'' [] @ '' '' @ get item ''description'' [] @ '' '' @ get item ''industry'' []"

text \<open>\<open>LeadMonitor.filter_by_industry\<close> reads the items and writes to none of them; the store
  is returned as it was received.\<close>

fun industry_loop :: "string list \<Rightarrow> store \<Rightarrow> ref list \<Rightarrow> ref list \<Rightarrow> store \<times> ref list" where
  "industry_loop keywords st [] filtered = (st, filtered)"
| "industry_loop keywords st (item # data) filtered =
     (case first_keyword keywords (lower (item_text (st item))) of
        None \<Rightarrow> industry_loop keywords st data filtered
      | Some industry_keyword \<Rightarrow> industry_loop keywords st data (filtered @ [item]))"

definition filter_by_industry :: "store \<Rightarrow> ref list \<Rightarrow> store \<times> ref list" where
  "filter_by_industry st data = industry_loop LM_TARGET_INDUSTRIES st data []"

section \<open>production\_monitor.py\<close>

definition prod_lead_text :: "dict \<Rightarrow> string" where
  "prod_lead_text lead =
     join '' '' [get lead ''title'' [], get lead ''description'' [],
                 get lead ''company'' [], get lead ''category'' []]"

text \<open>\<open>ProductionLeadMonitor.filter_by_target_industries\<close>.\<close>

definition prod_filter_by_target_industries ::
  "store \<Rightarrow> ref list \<Rightarrow> string list \<Rightarrow> store \<times> ref list" where
  "prod_filter_by_target_industries st leads keywords =
     industries_loop (\<lambda>lead. lower (prod_lead_text lead)) keywords st leads []"


section \<open>Lists as objects\<close>


section \<open>Exceptions, printed lines and the outside world\<close>

text \<open>
  An exception is a value that carries its message (\<open>str(e)\<close>); a call that may raise returns
  \<open>exn + 'a\<close>. A function that prints returns the list of the strings passed to \<open>print\<close>, in
  order. What the network, the SMTP server, the file system and the clock answer is a parameter
  of the function that asks. \<open>time.sleep\<close> is not modelled.
\<close>

datatype exn = Exception string

fun str_exn :: "exn \<Rightarrow> string" where
  "str_exn (Exception message) = message"

type_synonym log = "string list"

text \<open>\<open>str.strip()\<close> on ASCII: the whitespace characters are tab, line feed, vertical tab, form
  feed, carriage return, the four separators \<open>0x1C\<close>..\<open>0x1F\<close> and the space.\<close>

definition whitespace :: string where
  "whitespace = [CHR 0x09, CHR 0x0A, CHR 0x0B, CHR 0x0C, CHR 0x0D,
                 CHR 0x1C, CHR 0x1D, CHR 0x1E, CHR 0x1F, CHR 0x20]"

definition strip :: "string \<Rightarrow> string" where
  "strip s = rev (dropWhile (List.member whitespace) (rev (dropWhile (List.member whitespace) s)))"

text \<open>\<open>str(n)\<close> for a length.\<close>

fun str_nat :: "nat \<Rightarrow> string" where
  "str_nat n =
     (if n < 10 then [''0123456789'' ! n] else str_nat (n div 10) @ [''0123456789'' ! (n mod 10)])"

text \<open>The truth value of \<open>d.get(k)\<close>: the key is present and its string is not empty.\<close>

definition truthy :: "string option \<Rightarrow> bool" where
  "truthy v = (case v of None \<Rightarrow> False | Some s \<Rightarrow> s \<noteq> [])"

section \<open>lead\_monitor.py: collection\<close>

definition LM_cities :: "(string \<times> string list) list" where
  "LM_cities =
    [(''Middlesex'', [''Cambridge'', ''Lowell'', ''Newton'', ''Somerville'', ''Framingham'',
                      ''Waltham'', ''Malden'', ''Medford'']),
     (''Norfolk'', [''Quincy'', ''Brookline'', ''Weymouth'', ''Braintree'', ''Needham'', ''Milton'']),
     (''Worcester'', [''Worcester'', ''Leominster'', ''Fitchburg'', ''Shrewsbury'',
                      ''Marlborough''])]"

text \<open>\<open>LeadMonitor._search_city_permits\<close> and \<open>LeadMonitor._query_osha_data\<close> are templates in
  the source: they return an empty list.\<close>

definition search_city_permits :: "string \<Rightarrow> string \<Rightarrow> exn + dict list" where
  "search_city_permits city county = Inr []"

definition query_osha_data :: "exn + dict list" where
  "query_osha_data = Inr []"

text \<open>
  \<open>LeadMonitor.search_ma_permits\<close>. The \<open>try\<close> is inside both loops, around one call of the city
  collector; \<open>self.permits\<close> is the list passed in and returned. The city collector is a
  parameter, so that the handler can be exercised; \<open>search_ma_permits\<close> is the function with the
  source's own collector.
\<close>

fun permit_city_loop ::
  "(string \<Rightarrow> string \<Rightarrow> exn + dict list) \<Rightarrow> string \<Rightarrow> string list \<Rightarrow> dict list \<Rightarrow> log \<Rightarrow>
     dict list \<times> log" where
  "permit_city_loop search county [] permits out = (permits, out)"
| "permit_city_loop search county (city # city_list) permits out =
     (case search city county of
        Inr permit_data \<Rightarrow> permit_city_loop search county city_list (permits @ permit_data) out
      | Inl e \<Rightarrow>
          permit_city_loop search county city_list permits
            (out @ [''Error searching '' @ city @ '': '' @ str_exn e]))"

fun permit_county_loop ::
  "(string \<Rightarrow> string \<Rightarrow> exn + dict list) \<Rightarrow> (string \<times> string list) list \<Rightarrow> dict list \<Rightarrow> log \<Rightarrow>
     dict list \<times> log" where
  "permit_county_loop search [] permits out = (permits, out)"
| "permit_county_loop search ((county, city_list) # rest) permits out =
     (case permit_city_loop search county city_list permits out of
        (permits', out') \<Rightarrow> permit_county_loop search rest permits' out')"

definition search_ma_permits_with ::
  "(string \<Rightarrow> string \<Rightarrow> exn + dict list) \<Rightarrow> dict list \<Rightarrow> dict list \<times> log" where
  "search_ma_permits_with search permits =
     permit_county_loop search LM_cities permits [''Searching Massachusetts building permits...'']"

definition search_ma_permits :: "dict list \<Rightarrow> dict list \<times> log" where
  "search_ma_permits permits = search_ma_permits_with search_city_permits permits"

text \<open>\<open>LeadMonitor.search_osha_incidents\<close>, with the query as a parameter and with the source's
  own.\<close>

definition search_osha_incidents_with :: "(exn + dict list) \<Rightarrow> dict list \<Rightarrow> dict list \<times> log" where
  "search_osha_incidents_with query osha_incidents =
     (case query of
        Inr incidents \<Rightarrow> (osha_incidents @ incidents, [''Searching OSHA incidents...''])
      | Inl e \<Rightarrow>
          (osha_incidents, [''Searching OSHA incidents...'', ''Error searching OSHA: '' @ str_exn e]))"

definition search_osha_incidents :: "dict list \<Rightarrow> dict list \<times> log" where
  "search_osha_incidents osha_incidents = search_osha_incidents_with query_osha_data osha_incidents"

section \<open>lead\_monitor.py: report entry, delivery and export\<close>

text \<open>\<open>LeadMonitor._format_permit_html\<close>: the f-string, character by character.\<close>

definition format_permit_html :: "dict \<Rightarrow> string" where
  \<open>format_permit_html permit =
     (let priority_class = (if truthy (map_of permit ''priority'') then ''priority'' else '''')
      in ''\<newline>        <div class="lead '' @ priority_class @ ''">\<newline>''
       @ ''            <div class="field"><span class="label">Business:</span> ''
           @ get permit ''name'' ''N/A'' @ ''</div>\<newline>''
       @ ''            <div class="field"><span class="label">Address:</span> ''
           @ get permit ''address'' ''N/A'' @ ''</div>\<newline>''
       @ ''            <div class="field"><span class="label">City:</span> ''
           @ get permit ''city'' ''N/A'' @ '', '' @ get permit ''county'' ''N/A'' @ '' County</div>\<newline>''
       @ ''            <div class="field"><span class="label">Project Type:</span> ''
           @ get permit ''project_type'' ''N/A'' @ ''</div>\<newline>''
       @ ''            <div class="field"><span class="label">Permit Date:</span> ''
           @ get permit ''date'' ''N/A'' @ ''</div>\<newline>''
       @ ''            <div class="field"><span class="label">Industry:</span> ''
           @ get permit ''industry'' ''N/A'' @ ''</div>\<newline>''
       @ ''            ''
           @ (if truthy (map_of permit ''phone'')
              then ''<div class="field"><span class="label">Phone:</span> ''
                   @ get permit ''phone'' ''N/A'' @ ''</div>''
              else '''')
           @ ''\<newline>''
       @ ''            ''
           @ (if truthy (map_of permit ''website'')
              then ''<div class="field"><span class="label">Website:</span> <a href="''
                   @ get permit ''website'' ''None'' @ ''">'' @ get permit ''website'' ''None''
                   @ ''</a></div>''
              else '''')
           @ ''\<newline>''
       @ ''            <div class="field"><span class="label">Estimated Value:</span> $''
           @ get permit ''value'' ''N/A'' @ ''</div>\<newline>''
       @ ''        </div>\<newline>''
       @ ''        '')\<close>

text \<open>
  \<open>LeadMonitor.send_email\<close> and \<open>LeadMonitor.save_to_file\<close>. The world answers: the environment
  variable, whether logging in and sending the message with a given subject and HTML part
  raises, whether opening and writing a file raises, and the two renderings of today's date.
  The effects are recorded in order; a send or a write is recorded when it is attempted.
\<close>

datatype effect = Printed string | Smtp_send string string | File_write string string

record mail_world =
  GMAIL_APP_PASSWORD :: "string option"
  smtp :: "string \<Rightarrow> string \<Rightarrow> exn option"
  file_system :: "string \<Rightarrow> string \<Rightarrow> exn option"
  today_long :: string
  today_ymd :: string

definition EMAIL_RECIPIENT :: string where
  "EMAIL_RECIPIENT = ''Dhead20@gmail.com''"

definition save_to_file :: "mail_world \<Rightarrow> string \<Rightarrow> (exn + unit) \<times> effect list" where
  "save_to_file w html_content =
     (let filename = ''lead_report_'' @ today_ymd w @ ''.html''
      in case file_system w filename html_content of
           Some e \<Rightarrow> (Inl e, [File_write filename html_content])
         | None \<Rightarrow>
             (Inr (), [File_write filename html_content, Printed (''Report saved to '' @ filename)]))"

definition send_email :: "mail_world \<Rightarrow> string \<Rightarrow> (exn + unit) \<times> effect list" where
  "send_email w html_content =
     (if \<not> truthy (GMAIL_APP_PASSWORD w)
      then (case save_to_file w html_content of
              (result, effects) \<Rightarrow>
                (result,
                 [Printed ''ERROR: GMAIL_APP_PASSWORD environment variable not set'',
                  Printed ''Saving report to file instead...''] @ effects))
      else (let subject = ''Non-Slip Leads - '' @ today_long w
            in case smtp w subject html_content of
                 None \<Rightarrow>
                   (Inr (),
                    [Smtp_send subject html_content,
                     Printed (''Email sent successfully to '' @ EMAIL_RECIPIENT)])
               | Some e \<Rightarrow>
                   (case save_to_file w html_content of
                      (result, effects) \<Rightarrow>
                        (result,
                         [Smtp_send subject html_content,
                          Printed (''Error sending email: '' @ str_exn e)] @ effects))))"

text \<open>\<open>LeadMonitor.save_to_csv\<close>. A cell is \<open>None\<close> where \<open>dict.get\<close> finds no key. The result is
  the file handed to the data frame writer, if any: its name and its rows.\<close>

type_synonym row = "(string \<times> string option) list"

definition permit_row :: "string \<Rightarrow> dict \<Rightarrow> row" where
  "permit_row today permit =
     [(''date_found'', Some today), (''type'', Some ''Permit''),
      (''name'', map_of permit ''name''), (''address'', map_of permit ''address''),
      (''city'', map_of permit ''city''), (''county'', map_of permit ''county''),
      (''industry'', map_of permit ''industry''), (''phone'', map_of permit ''phone''),
      (''website'', map_of permit ''website''), (''details'', map_of permit ''project_type''),
      (''priority'', Some ''Medium'')]"

definition incident_row :: "string \<Rightarrow> dict \<Rightarrow> row" where
  "incident_row today incident =
     [(''date_found'', Some today), (''type'', Some ''OSHA Incident''),
      (''name'', map_of incident ''name''), (''address'', map_of incident ''address''),
      (''city'', map_of incident ''city''), (''county'', map_of incident ''county''),
      (''industry'', map_of incident ''industry''), (''phone'', map_of incident ''phone''),
      (''website'', map_of incident ''website''), (''details'', map_of incident ''description''),
      (''priority'', Some ''High'')]"

definition save_to_csv ::
  "string \<Rightarrow> string \<Rightarrow> dict list \<Rightarrow> dict list \<Rightarrow> (string \<times> row list) option \<times> log" where
  "save_to_csv today ymd permits osha_incidents =
     (let all_leads = map (permit_row today) permits @ map (incident_row today) osha_incidents;
          filename = ''leads_'' @ ymd @ ''.csv''
      in if all_leads \<noteq> [] then (Some (filename, all_leads), [''Leads saved to '' @ filename])
         else (None, []))"

section \<open>production\_monitor.py: collection and the full scan\<close>

text \<open>
  What \<open>soup.find_all('item')\<close> yields for a feed: for each item the text of its \<open>title\<close>,
  \<open>link\<close>, \<open>pubDate\<close> and \<open>description\<close> elements, where present. A request answers with an
  exception (raised by the request or by the parser) or with a status code and the items.
  \<open>requests.utils.quote\<close> is a parameter.
\<close>

record rss_item =
  title_text :: "string option"
  link_text :: "string option"
  pubDate_text :: "string option"
  description_text :: "string option"

type_synonym news_get = "string \<Rightarrow> exn + int \<times> rss_item list"

definition text_or_empty :: "string option \<Rightarrow> string" where
  "text_or_empty t = (case t of None \<Rightarrow> [] | Some s \<Rightarrow> s)"

definition news_lead :: "string \<Rightarrow> rss_item \<Rightarrow> dict" where
  "news_lead query item =
     [(''source'', ''Google News''),
      (''title'', text_or_empty (title_text item)),
      (''description'', text_or_empty (description_text item)),
      (''url'', text_or_empty (link_text item)),
      (''date'', text_or_empty (pubDate_text item)),
      (''search_query'', query),
      (''type'', ''News Mention'')]"

definition search_queries :: "string \<Rightarrow> string list" where
  "search_queries location =
     [''new restaurant opening '' @ location,
      ''restaurant renovation '' @ location,
      ''new hotel opening '' @ location,
      ''school renovation '' @ location,
      ''nursing home opened '' @ location,
      ''fitness center opening '' @ location]"

definition news_url :: "(string \<Rightarrow> string) \<Rightarrow> string \<Rightarrow> string" where
  "news_url quote query =
     ''https://news.google.com/rss/search?q='' @ quote query @ ''&hl=en-US&gl=US&ceid=US:en''"

text \<open>\<open>ProductionLeadMonitor.search_google_news\<close>. The \<open>try\<close> is around the whole loop over the
  queries: an exception ends the loop, and the leads appended so far are returned.\<close>

fun news_loop ::
  "news_get \<Rightarrow> (string \<Rightarrow> string) \<Rightarrow> string list \<Rightarrow> dict list \<Rightarrow> log \<Rightarrow>
     exn option \<times> dict list \<times> log" where
  "news_loop http_get quote [] leads out = (None, leads, out)"
| "news_loop http_get quote (query # rest) leads out =
     (case http_get (news_url quote query) of
        Inl e \<Rightarrow> (Some e, leads, out @ [''Searching news: '' @ query])
      | Inr (status_code, items) \<Rightarrow>
          news_loop http_get quote rest
            (if status_code = 200 then leads @ map (news_lead query) (take 5 items) else leads)
            (out @ [''Searching news: '' @ query]))"

definition search_google_news ::
  "news_get \<Rightarrow> (string \<Rightarrow> string) \<Rightarrow> string \<Rightarrow> string \<Rightarrow> dict list \<times> log" where
  "search_google_news http_get quote query location =
     (case news_loop http_get quote (search_queries location) [] [] of
        (None, leads, out) \<Rightarrow> (leads, out)
      | (Some e, leads, out) \<Rightarrow> (leads, out @ [''Error searching Google News: '' @ str_exn e]))"

text \<open>
  What \<open>soup.find_all('div', class_='severeinjury-item')\<close> yields for the OSHA page: for each
  div the text of its \<open>strong\<close> element, where present, and its whole text. Reading a div may
  raise; the inner \<open>try\<close> skips such a div without printing.
\<close>

record severeinjury_item =
  strong :: "string option"
  get_text :: string

type_synonym osha_get = "exn + int \<times> (exn + severeinjury_item) list"

definition osha_incident :: "string \<Rightarrow> severeinjury_item \<Rightarrow> dict" where
  "osha_incident state d =
     [(''source'', ''OSHA''),
      (''company'', (case strong d of None \<Rightarrow> [] | Some s \<Rightarrow> strip s)),
      (''description'', get_text d),
      (''type'', ''Safety Incident''),
      (''priority'', ''High''),
      (''state'', state)]"

fun osha_loop :: "string \<Rightarrow> (exn + severeinjury_item) list \<Rightarrow> dict list \<Rightarrow> dict list" where
  "osha_loop state [] incidents = incidents"
| "osha_loop state (Inl e # divs) incidents = osha_loop state divs incidents"
| "osha_loop state (Inr d # divs) incidents =
     (if sublist ''MA'' (get_text d) \<or> sublist ''Massachusetts'' (get_text d)
      then osha_loop state divs (incidents @ [osha_incident state d])
      else osha_loop state divs incidents)"

text \<open>\<open>ProductionLeadMonitor.search_osha_data\<close>.\<close>

definition search_osha_data :: "osha_get \<Rightarrow> string \<Rightarrow> dict list \<times> log" where
  "search_osha_data response state =
     (case response of
        Inl e \<Rightarrow>
          ([], [''Accessing OSHA public data...'', ''Error accessing OSHA data: '' @ str_exn e])
      | Inr (status_code, incident_divs) \<Rightarrow>
          (if status_code = 200 then osha_loop state (take 20 incident_divs) [] else [],
           [''Accessing OSHA public data...'']))"

definition target_keywords :: "string list" where
  "target_keywords =
    [''restaurant'', ''dining'', ''food service'',
     ''hospital'', ''healthcare'', ''medical center'', ''clinic'',
     ''school'', ''university'', ''college'', ''education'',
     ''hotel'', ''motel'', ''resort'', ''lodging'',
     ''country club'', ''golf club'',
     ''assisted living'', ''nursing home'', ''senior living'', ''retirement'',
     ''fitness center'', ''gym'', ''health club'', ''wellness center'']"

text \<open>The dicts a collector returns are new objects: \<open>alloc\<close> places them in a store, the
  \<open>i\<close>-th at reference \<open>i\<close>.\<close>

definition alloc :: "dict list \<Rightarrow> store \<times> ref list" where
  "alloc ds = ((\<lambda>r. if r < length ds then ds ! r else []), [0..<length ds])"

text \<open>\<open>ProductionLeadMonitor.run_full_scan\<close>.\<close>

definition run_full_scan ::
  "news_get \<Rightarrow> (string \<Rightarrow> string) \<Rightarrow> osha_get \<Rightarrow> (store \<times> ref list) \<times> log" where
  "run_full_scan http_get quote osha_response =
     (case search_google_news http_get quote ''new business opening'' ''Massachusetts'' of
        (news_leads, out1) \<Rightarrow>
     case search_osha_data osha_response ''MA'' of
        (osha_leads, out2) \<Rightarrow>
     let all_leads = news_leads @ osha_leads
     in case alloc all_leads of
        (st, refs) \<Rightarrow>
     case prod_filter_by_target_industries st refs target_keywords of
        (st', filtered_leads) \<Rightarrow>
          ((st', filtered_leads),
           [replicate 60 (CHR ''=''), ''STARTING FULL LEAD SCAN'', replicate 60 (CHR ''='')]
           @ out1 @ out2
           @ [''\<newline>Total leads found: '' @ str_nat (length all_leads),
              ''Filtered to target industries: '' @ str_nat (length filtered_leads)]))"

text \<open>The entry that \<open>format_leads_for_email\<close> renders for one news lead (the f-string in its
  second loop). The arrow is the three bytes of U+2192.\<close>

definition news_lead_html :: "dict \<Rightarrow> string" where
  \<open>news_lead_html lead =
       ''\<newline>            <div class="lead">\<newline>''
     @ ''                <span class="source-tag">NEWS</span>\<newline>''
     @ ''                <div class="lead-title">'' @ get lead ''title'' ''N/A'' @ ''</div>\<newline>''
     @ ''                <div class="lead-detail"><span class="label">Description:</span> ''
         @ get lead ''description'' ''N/A'' @ ''</div>\<newline>''
     @ ''                <div class="lead-detail"><span class="label">Date:</span> ''
         @ get lead ''date'' ''N/A'' @ ''</div>\<newline>''
     @ ''                <div class="lead-detail"><span class="label">Industry Match:</span> ''
         @ get lead ''matched_keyword'' ''N/A'' @ ''</div>\<newline>''
     @ ''                <div class="lead-detail"><a href="'' @ get lead ''url'' ''#''
         @ ''">Read full article '' @ [CHR 0xE2, CHR 0x86, CHR 0x92] @ ''</a></div>\<newline>''
     @ ''            </div>\<newline>''
     @ ''            ''\<close>

section \<open>osha\_scraper.py\<close>

definition slip_fall_keywords :: "string list" where
  "slip_fall_keywords =
    [''slip'', ''trip'', ''fall'', ''floor'', ''walking'', ''surface'',
     ''wet'', ''housekeeping'', ''guardrail'', ''stair'', ''ladder'']"

text \<open>\<open>OSHAScraper.filter_slip_fall_incidents\<close>: a kept incident is written to.\<close>

fun slip_fall_loop :: "store \<Rightarrow> ref list \<Rightarrow> ref list \<Rightarrow> store \<times> ref list" where
  "slip_fall_loop st [] filtered = (st, filtered)"
| "slip_fall_loop st (incident # incidents) filtered =
     (let description =
            lower (get (st incident) ''violations'' [] @ '' '' @ get (st incident) ''hazards'' [])
      in if list_ex (\<lambda>keyword. sublist keyword description) slip_fall_keywords
         then slip_fall_loop
                (st(incident :=
                      setitem (setitem (st incident) ''priority'' ''High'')
                        ''match_reason'' ''Slip/trip/fall related incident''))
                incidents (filtered @ [incident])
         else slip_fall_loop st incidents filtered)"

definition filter_slip_fall_incidents :: "store \<Rightarrow> ref list \<Rightarrow> store \<times> ref list" where
  "filter_slip_fall_incidents st incidents = slip_fall_loop st incidents []"

section \<open>Vocabulary of the properties\<close>

text \<open>
  The definitions of this section are not functions of the program. They name what the
  properties speak about: the conditions of the specification, what a loop writes to one lead,
  what a collector contributes, and the inputs of the examples.
\<close>

subsection \<open>Matching\<close>

text \<open>A keyword is a case-insensitive substring of a text. Lemma \<open>ci_substring_iff\<close> shows that
  this is: some substring of the text equals the keyword up to case.\<close>

definition ci_substring :: "string \<Rightarrow> string \<Rightarrow> bool" where
  "ci_substring keyword text = sublist (lower keyword) (lower text)"

text \<open>The condition of the geography filter: a county of the list occurs in the text of the
  lead, case-insensitively; a city of the table occurs in the lower-cased text.\<close>

definition county_cond :: "string list \<Rightarrow> dict \<Rightarrow> bool" where
  "county_cond counties lead = (\<exists>county \<in> set counties. ci_substring county (place_text lead))"

definition city_cond :: "(string \<times> string list) list \<Rightarrow> dict \<Rightarrow> bool" where
  "city_cond table lead =
     (\<exists>(county, city_list) \<in> set table. \<exists>city \<in> set city_list. sublist city (county_text lead))"

subsection \<open>What a filter writes to one lead\<close>

text \<open>The industry filter on one lead.\<close>

definition industry_stamp :: "(dict \<Rightarrow> string) \<Rightarrow> string list \<Rightarrow> dict \<Rightarrow> dict" where
  "industry_stamp text_of keywords lead =
     (case first_keyword keywords (text_of lead) of
        None \<Rightarrow> lead
      | Some keyword \<Rightarrow> setitem lead ''matched_keyword'' keyword)"

text \<open>
  The geography filter on one lead, as a map from keys to values. \<open>city_hits\<close> lists, in table
  order, each county that has a city in the text, with the first such city of its list. Each
  hit overwrites \<open>county\<close> and \<open>city\<close>, so the last hit stays. \<open>geo_map\<close> is the lead after the
  county loop and the city loops; \<open>geo_hit\<close> says that one of them found something; a lead is
  \<open>stable\<close> when the filter would write nothing new to it.
\<close>

definition city_hits :: "(string \<times> string list) list \<Rightarrow> string \<Rightarrow> (string \<times> string) list" where
  "city_hits table text =
     List.map_filter (\<lambda>(county, city_list). map_option (Pair county) (first_city city_list text)) table"

definition city_stamps :: "(string \<times> string) list \<Rightarrow> (string \<rightharpoonup> string) \<Rightarrow> (string \<rightharpoonup> string)" where
  "city_stamps hits m =
     (if hits = [] then m
      else m(''county'' \<mapsto> fst (last hits), ''city'' \<mapsto> title (snd (last hits))))"

definition geo_stamps ::
  "string list \<Rightarrow> (string \<times> string list) list \<Rightarrow> string \<Rightarrow> (string \<rightharpoonup> string) \<Rightarrow> (string \<rightharpoonup> string)" where
  "geo_stamps counties table text m =
     city_stamps (city_hits table text)
       (case first_county counties text of None \<Rightarrow> m | Some county \<Rightarrow> m(''county'' \<mapsto> county))"

definition geo_hit :: "string list \<Rightarrow> (string \<times> string list) list \<Rightarrow> string \<Rightarrow> bool" where
  "geo_hit counties table text = (first_county counties text \<noteq> None \<or> city_hits table text \<noteq> [])"

definition geo_map :: "string list \<Rightarrow> (string \<times> string list) list \<Rightarrow> dict \<Rightarrow> (string \<rightharpoonup> string)" where
  "geo_map counties table lead = geo_stamps counties table (county_text lead) (map_of lead)"

definition stable :: "string list \<Rightarrow> (string \<times> string list) list \<Rightarrow> dict \<Rightarrow> bool" where
  "stable cs tb d = (geo_map cs tb d = map_of d)"

text \<open>A lead after both filters, in either order.\<close>

definition final_map ::
  "string list \<Rightarrow> string list \<Rightarrow> (string \<times> string list) list \<Rightarrow> dict \<Rightarrow> (string \<rightharpoonup> string)" where
  "final_map keywords counties table lead =
     geo_stamps counties table (county_text lead)
       (case first_keyword keywords (industry_text lead) of
          None \<Rightarrow> map_of lead
        | Some keyword \<Rightarrow> (map_of lead)(''matched_keyword'' \<mapsto> keyword))"

subsection \<open>Leads that differ only in what the filters write\<close>

text \<open>Two dicts agree on every key other than \<open>county\<close> and \<open>city\<close>; other than \<open>county\<close>, \<open>city\<close>
  and \<open>matched_keyword\<close>. Only keys of one of the two dicts need to be looked at.\<close>

definition same_apart_from_place :: "dict \<Rightarrow> dict \<Rightarrow> bool" where
  "same_apart_from_place a b =
     list_all (\<lambda>k. k = ''county'' \<or> k = ''city'' \<or> map_of a k = map_of b k) (map fst a @ map fst b)"

definition same_apart_from_stamps :: "dict \<Rightarrow> dict \<Rightarrow> bool" where
  "same_apart_from_stamps a b =
     list_all (\<lambda>k. k = ''county'' \<or> k = ''city'' \<or> k = ''matched_keyword'' \<or> map_of a k = map_of b k)
       (map fst a @ map fst b)"

subsection \<open>The filter stages\<close>



subsection \<open>What a collector contributes\<close>



definition query_raises :: "news_get \<Rightarrow> (string \<Rightarrow> string) \<Rightarrow> string \<Rightarrow> bool" where
  "query_raises http_get quote query =
     (case http_get (news_url quote query) of Inl e \<Rightarrow> True | Inr answer \<Rightarrow> False)"

definition query_leads :: "news_get \<Rightarrow> (string \<Rightarrow> string) \<Rightarrow> string \<Rightarrow> dict list" where
  "query_leads http_get quote query =
     (case http_get (news_url quote query) of
        Inl e \<Rightarrow> []
      | Inr (status_code, items) \<Rightarrow>
          if status_code = 200 then map (news_lead query) (take 5 items) else [])"

definition readable :: "(exn + 'a) list \<Rightarrow> 'a list" where
  "readable xs = List.map_filter (\<lambda>x. case x of Inl e \<Rightarrow> None | Inr d \<Rightarrow> Some d) xs"


subsection \<open>Priorities\<close>

text \<open>The rows of the file that \<open>save_to_csv\<close> wrote, none when it wrote no file; and the test of
  the slip and fall filter on one incident.\<close>

definition exported_rows :: "(string \<times> row list) option \<Rightarrow> row list" where
  "exported_rows written = (case written of None \<Rightarrow> [] | Some (filename, rows) \<Rightarrow> rows)"

definition slip_fall_hit :: "dict \<Rightarrow> bool" where
  "slip_fall_hit incident =
     list_ex (\<lambda>keyword. sublist keyword
        (lower (get incident ''violations'' [] @ '' '' @ get incident ''hazards'' [])))
       slip_fall_keywords"

subsection \<open>Delivery\<close>

text \<open>The file writes and the SMTP payloads among the effects, in order; and the two ways in
  which delivery fails.\<close>

fun file_writes :: "effect list \<Rightarrow> (string \<times> string) list" where
  "file_writes [] = []"
| "file_writes (File_write filename content # effects) = (filename, content) # file_writes effects"
| "file_writes (Printed line # effects) = file_writes effects"
| "file_writes (Smtp_send subject payload # effects) = file_writes effects"

fun smtp_payloads :: "effect list \<Rightarrow> string list" where
  "smtp_payloads [] = []"
| "smtp_payloads (Smtp_send subject payload # effects) = payload # smtp_payloads effects"
| "smtp_payloads (Printed line # effects) = smtp_payloads effects"
| "smtp_payloads (File_write filename content # effects) = smtp_payloads effects"

definition delivery_fails :: "mail_world \<Rightarrow> string \<Rightarrow> bool" where
  "delivery_fails w html_content =
     (\<not> truthy (GMAIL_APP_PASSWORD w) \<or> smtp w (''Non-Slip Leads - '' @ today_long w) html_content \<noteq> None)"

subsection \<open>Rendered fields\<close>

text \<open>One field of a permit entry, and one detail of a news entry, as they appear in the HTML.\<close>

definition field_html :: "string \<Rightarrow> string \<Rightarrow> string" where
  \<open>field_html label shown =
     ''<div class="field"><span class="label">'' @ label @ '':</span> '' @ shown @ ''</div>''\<close>

definition detail_html :: "string \<Rightarrow> string \<Rightarrow> string" where
  \<open>detail_html label shown =
     ''<div class="lead-detail"><span class="label">'' @ label @ '':</span> '' @ shown @ ''</div>''\<close>

subsection \<open>Inputs of the examples\<close>

text \<open>Four leads: one that names a restaurant and Cambridge, one that names two cities of two
  counties, a permit-style item, and one that matches nothing.\<close>

definition example_store :: store where
  "example_store =
     (\<lambda>r. [])
       (0 := [(''title'', ''New Restaurant Opens in Cambridge'')],
        1 := [(''title'', ''Cafe opens in Cambridge and Quincy'')],
        2 := [(''name'', ''Grand Hotel'')],
        3 := [(''title'', ''Town meeting''), (''description'', ''Budget vote in Springfield'')])"

text \<open>Leads for the corner cases of the geography filter: two distinct leads with the same
  fields whose title names a city of the table; two distinct leads with the same fields whose
  title names a county; and a lead whose title names two counties.\<close>

definition corner_store :: store where
  "corner_store =
     (\<lambda>r. [])
       (0 := [(''title'', ''Cafe opens in Cambridge'')],
        1 := [(''title'', ''Cafe opens in Cambridge'')],
        2 := [(''title'', ''Norfolk County fair'')],
        3 := [(''title'', ''Norfolk County fair'')],
        4 := [(''title'', ''Storm in Norfolk and Middlesex'')])"

text \<open>Two incidents for the slip and fall filter.\<close>

definition example_incident_store :: store where
  "example_incident_store =
     (\<lambda>r. [])
       (0 := [(''name'', ''Acme Diner''), (''violations'', ''Wet floor in kitchen'')],
        1 := [(''name'', ''Bolt Works''), (''hazards'', ''Unguarded press'')])"

text \<open>A feed that answers every request with one item, except the second query of the news
  search, where the request raises.\<close>

definition example_item :: rss_item where
  "example_item =
     \<lparr>title_text = Some ''New Restaurant Opens in Cambridge'', link_text = Some ''http://news.example/1'',
      pubDate_text = None, description_text = Some ''A diner opens''\<rparr>"

definition example_news_get :: news_get where
  "example_news_get =
     (\<lambda>url. if url = news_url id ''restaurant renovation Massachusetts''
            then Inl (Exception ''connection timed out'')
            else Inr (200, [example_item]))"


text \<open>Two OSHA pages: one with a Massachusetts incident, a div that cannot be read and a Texas
  incident; and one with a single Massachusetts incident at a hotel.\<close>

definition example_osha_response :: osha_get where
  "example_osha_response =
     Inr (200,
       [Inr \<lparr>strong = Some '' Acme Diner '', get_text = ''Acme Diner, Boston, MA: employee slipped''\<rparr>,
        Inl (Exception ''no text''),
        Inr \<lparr>strong = None, get_text = ''Lone Star Hotel, Austin, TX: fall from ladder''\<rparr>])"

definition example_hotel_response :: osha_get where
  "example_hotel_response =
     Inr (200,
       [Inr \<lparr>strong = Some ''Grand Hotel'',
             get_text = ''Grand Hotel, Worcester, MA: employee slipped on a wet floor''\<rparr>])"

text \<open>A world without the password, and one where the SMTP server refuses.\<close>

definition no_password_world :: mail_world where
  "no_password_world =
     \<lparr>GMAIL_APP_PASSWORD = None, smtp = (\<lambda>subject payload. None),
      file_system = (\<lambda>filename content. None),
      today_long = ''March 01, 2025'', today_ymd = ''20250301''\<rparr>"

definition smtp_down_world :: mail_world where
  "smtp_down_world =
     \<lparr>GMAIL_APP_PASSWORD = Some ''secret'',
      smtp = (\<lambda>subject payload. Some (Exception ''connection refused'')),
      file_system = (\<lambda>filename content. None),
      today_long = ''March 01, 2025'', today_ymd = ''20250301''\<rparr>"

text \<open>A permit with an empty name and neither phone nor website, one with both, and one with
  a phone and an empty website.\<close>

definition bare_permit :: dict where
  "bare_permit = [(''name'', ''''), (''address'', ''1 Main St'')]"

definition full_permit :: dict where
  "full_permit = [(''name'', ''Acme Diner''), (''phone'', ''555-0100''),
                  (''website'', ''http://acme.example'')]"

definition phone_only_permit :: dict where
  "phone_only_permit = [(''name'', ''Acme Diner''), (''phone'', ''555-0100''), (''website'', [])]"

section \<open>Lemmas\<close>

subsection \<open>Dictionaries and the membership test\<close>

lemma map_of_setitem: "map_of (setitem d k v) = (map_of d)(k \<mapsto> v)"
  by (induction d) (auto simp: fun_eq_iff)

lemma dict_le_iff: "dict_le a b \<longleftrightarrow> (\<forall>k \<in> dom (map_of a). map_of a k = map_of b k)"
  by (auto simp: dict_le_def list_all_iff dom_map_of_conv_image_fst)

lemma dict_eq_iff: "dict_eq a b \<longleftrightarrow> map_of a = map_of b"
proof
  assume h: "dict_eq a b"
  show "map_of a = map_of b"
  proof
    fix k
    show "map_of a k = map_of b k"
    proof (cases "k \<in> dom (map_of a)")
      case True
      with h show ?thesis by (simp add: dict_eq_def dict_le_iff)
    next
      case na: False
      show ?thesis
      proof (cases "k \<in> dom (map_of b)")
        case True
        with h show ?thesis by (simp add: dict_eq_def dict_le_iff)
      next
        case False
        with na show ?thesis by (simp add: domIff)
      qed
    qed
  qed
next
  assume "map_of a = map_of b"
  then show "dict_eq a b" by (simp add: dict_eq_def dict_le_iff)
qed

lemma py_in_iff: "py_in st r rs \<longleftrightarrow> (\<exists>r' \<in> set rs. r' = r \<or> map_of (st r') = map_of (st r))"
  by (simp add: py_in_def list_ex_iff dict_eq_iff)

lemma get_setitem: "get (setitem d k v) k' dflt = (if k' = k then v else get d k' dflt)"
  by (simp add: get_def map_of_setitem)

subsection \<open>The keyword matcher\<close>

lemma first_keyword_None: "first_keyword kws text = None \<longleftrightarrow> (\<forall>k \<in> set kws. \<not> sublist (lower k) text)"
  by (auto simp: first_keyword_def find_None_iff)

lemma first_keyword_Some:
  "first_keyword kws text = Some k \<longleftrightarrow>
     (\<exists>i < length kws. kws ! i = k \<and> sublist (lower k) text \<and> (\<forall>j < i. \<not> sublist (lower (kws ! j)) text))"
  by (auto simp: first_keyword_def find_Some_iff)

lemma ci_substring_iff: "ci_substring k t \<longleftrightarrow> (\<exists>s. sublist s t \<and> lower s = lower k)"
proof
  assume "ci_substring k t"
  then obtain ps ss where "map lower_char t = ps @ map lower_char k @ ss"
    by (auto simp: ci_substring_def lower_def sublist_def)
  then obtain t1 r where a: "t = t1 @ r" "map lower_char r = map lower_char k @ ss"
    by (metis map_eq_append_conv)
  from a(2) obtain t2 t3 where b: "r = t2 @ t3" "map lower_char t2 = map lower_char k"
    by (metis map_eq_append_conv)
  from a(1) b have "t = t1 @ t2 @ t3" "map lower_char t2 = map lower_char k" by simp_all
  then show "\<exists>s. sublist s t \<and> lower s = lower k"
    by (auto simp: lower_def)
next
  assume "\<exists>s. sublist s t \<and> lower s = lower k"
  then obtain s where "sublist s t" "lower s = lower k" by blast
  then show "ci_substring k t"
    unfolding ci_substring_def lower_def by (auto simp: sublist_def) (metis map_append)
qed

subsection \<open>The industry filters\<close>

lemma setitem_twice: "setitem (setitem d k v) k v' = setitem d k v'"
  by (induction d) auto

lemma industry_text_setitem: "industry_text (setitem d ''matched_keyword'' k) = industry_text d"
  by (simp add: industry_text_def lead_text_def get_setitem)

lemma prod_text_setitem: "prod_lead_text (setitem d ''matched_keyword'' k) = prod_lead_text d"
  by (simp add: prod_lead_text_def get_setitem)

lemma industry_stamp_idem:
  assumes "\<And>d k. text_of (setitem d ''matched_keyword'' k) = text_of d"
  shows "industry_stamp text_of kws (industry_stamp text_of kws d) = industry_stamp text_of kws d"
  by (simp add: industry_stamp_def assms setitem_twice split: option.splits)

lemma industries_loop_result:
  assumes inv: "\<And>d k. text_of (setitem d ''matched_keyword'' k) = text_of d"
  shows "industries_loop text_of kws st leads acc =
     (\<lambda>r. if r \<in> set leads then industry_stamp text_of kws (st r) else st r,
      acc @ filter (\<lambda>r. first_keyword kws (text_of (st r)) \<noteq> None) leads)"
proof (induction leads arbitrary: st acc)
  case Nil
  then show ?case by simp
next
  case (Cons lead leads)
  show ?case
  proof (cases "first_keyword kws (text_of (st lead))")
    case None
    then have "industry_stamp text_of kws (st lead) = st lead"
      by (simp add: industry_stamp_def)
    with None show ?thesis
      by (auto simp: Cons.IH fun_eq_iff)
  next
    case (Some k)
    let ?st1 = "st(lead := setitem (st lead) ''matched_keyword'' k)"
    have s1: "?st1 lead = industry_stamp text_of kws (st lead)"
      by (simp add: industry_stamp_def Some)
    have t1: "text_of (?st1 r) = text_of (st r)" for r
      by (simp add: inv)
    have i1: "industry_stamp text_of kws (?st1 r) = industry_stamp text_of kws (st r)" for r
    proof (cases "r = lead")
      case True
      have "industry_stamp text_of kws (industry_stamp text_of kws (st lead)) =
            industry_stamp text_of kws (st lead)"
        by (rule industry_stamp_idem[where text_of = text_of]) (rule inv)
      with True s1 show ?thesis by simp
    next
      case False
      then show ?thesis by simp
    qed
    have "industries_loop text_of kws st (lead # leads) acc =
          industries_loop text_of kws ?st1 leads (acc @ [lead])"
      by (simp add: Some)
    also have "\<dots> = (\<lambda>r. if r \<in> set leads then industry_stamp text_of kws (?st1 r) else ?st1 r,
               (acc @ [lead]) @ filter (\<lambda>r. first_keyword kws (text_of (?st1 r)) \<noteq> None) leads)"
      by (rule Cons.IH)
    also have "\<dots> = (\<lambda>r. if r \<in> set (lead # leads) then industry_stamp text_of kws (st r) else st r,
               acc @ filter (\<lambda>r. first_keyword kws (text_of (st r)) \<noteq> None) (lead # leads))"
      unfolding t1 i1 using s1 Some by (auto simp: fun_eq_iff)
    finally show ?thesis .
  qed
qed


lemma first_keyword_ci:
  "first_keyword kws (lower t) \<noteq> None \<longleftrightarrow> (\<exists>k \<in> set kws. ci_substring k t)"
  by (auto simp: first_keyword_None ci_substring_def)

subsection \<open>The geography filter: one lead\<close>

lemma city_hits_Nil [simp]: "city_hits [] text = []"
  by (simp add: city_hits_def map_filter_simps)

lemma city_hits_Cons [simp]:
  "city_hits ((county, city_list) # rest) text =
     (case first_city city_list text of
        None \<Rightarrow> city_hits rest text
      | Some city \<Rightarrow> (county, city) # city_hits rest text)"
  by (simp add: city_hits_def map_filter_simps split: option.splits)

lemma city_stamps_Nil [simp]: "city_stamps [] m = m"
  by (simp add: city_stamps_def)

lemma city_stamps_Cons:
  "city_stamps (h # hs) m = city_stamps hs (m(''county'' \<mapsto> fst h, ''city'' \<mapsto> title (snd h)))"
  by (auto simp: city_stamps_def fun_upd_twist)

lemma cities_loop_store:
  "cities_loop table text st lead filtered = (st', f') \<Longrightarrow>
     (\<forall>r. r \<noteq> lead \<longrightarrow> st' r = st r) \<and>
     map_of (st' lead) = city_stamps (city_hits table text) (map_of (st lead))"
proof (induction table arbitrary: st filtered)
  case Nil
  then show ?case by auto
next
  case (Cons p table)
  obtain county city_list where p: "p = (county, city_list)" by (cases p)
  show ?case
  proof (cases "first_city city_list text")
    case None
    with Cons p show ?thesis by simp
  next
    case (Some city)
    let ?st1 = "st(lead := setitem (setitem (st lead) ''county'' county) ''city'' (title city))"
    let ?f1 = "if py_in ?st1 lead filtered then filtered else filtered @ [lead]"
    from Cons.prems p Some have "cities_loop table text ?st1 lead ?f1 = (st', f')"
      by (simp add: Let_def)
    from Cons.IH[OF this]
    have ih: "\<forall>r. r \<noteq> lead \<longrightarrow> st' r = ?st1 r"
      "map_of (st' lead) = city_stamps (city_hits table text) (map_of (?st1 lead))"
      by blast+
    have e: "map_of (?st1 lead) = (map_of (st lead))(''county'' \<mapsto> county, ''city'' \<mapsto> title city)"
      by (simp add: map_of_setitem)
    have h: "city_hits (p # table) text = (county, city) # city_hits table text"
      by (simp add: p Some)
    from ih(1) have "\<forall>r. r \<noteq> lead \<longrightarrow> st' r = st r" by simp
    moreover have "map_of (st' lead) = city_stamps (city_hits (p # table) text) (map_of (st lead))"
      unfolding h ih(2) e by (simp only: city_stamps_Cons fst_conv snd_conv)
    ultimately show ?thesis by blast
  qed
qed

lemma cities_loop_no_hit:
  "city_hits table text = [] \<Longrightarrow> cities_loop table text st lead filtered = (st, filtered)"
proof (induction table)
  case Nil
  then show ?case by simp
next
  case (Cons p table)
  then show ?case by (cases p) (auto split: option.splits)
qed

lemma cities_loop_filtered:
  "cities_loop table text st lead filtered = (st', f') \<Longrightarrow>
     f' = filtered \<or> (lead \<notin> set filtered \<and> f' = filtered @ [lead])"
proof (induction table arbitrary: st filtered)
  case Nil
  then show ?case by auto
next
  case (Cons p table)
  obtain county city_list where p: "p = (county, city_list)" by (cases p)
  show ?case
  proof (cases "first_city city_list text")
    case None
    with Cons p show ?thesis by simp
  next
    case (Some city)
    let ?st1 = "st(lead := setitem (setitem (st lead) ''county'' county) ''city'' (title city))"
    let ?f1 = "if py_in ?st1 lead filtered then filtered else filtered @ [lead]"
    from Cons.prems p Some have run: "cities_loop table text ?st1 lead ?f1 = (st', f')"
      by (simp add: Let_def)
    show ?thesis
    proof (cases "py_in ?st1 lead filtered")
      case True
      with run have "cities_loop table text ?st1 lead filtered = (st', f')" by simp
      from Cons.IH[OF this] show ?thesis .
    next
      case False
      with run have r2: "cities_loop table text ?st1 lead (filtered @ [lead]) = (st', f')" by simp
      from False have "lead \<notin> set filtered" by (auto simp: py_in_iff)
      with Cons.IH[OF r2] show ?thesis by auto
    qed
  qed
qed

lemma cities_loop_member:
  "cities_loop table text st lead filtered = (st', f') \<Longrightarrow> city_hits table text \<noteq> [] \<Longrightarrow>
     py_in st' lead f'"
proof (induction table arbitrary: st filtered)
  case Nil
  then show ?case by simp
next
  case (Cons p table)
  obtain county city_list where p: "p = (county, city_list)" by (cases p)
  show ?case
  proof (cases "first_city city_list text")
    case None
    with Cons p show ?thesis by simp
  next
    case (Some city)
    let ?st1 = "st(lead := setitem (setitem (st lead) ''county'' county) ''city'' (title city))"
    let ?f1 = "if py_in ?st1 lead filtered then filtered else filtered @ [lead]"
    from Cons.prems p Some have run: "cities_loop table text ?st1 lead ?f1 = (st', f')"
      by (simp add: Let_def)
    have in1: "py_in ?st1 lead ?f1"
    proof (cases "py_in ?st1 lead filtered")
      case True
      then show ?thesis by (simp only: if_True)
    next
      case False
      have "py_in ?st1 lead (filtered @ [lead])" unfolding py_in_iff by simp
      with False show ?thesis by (simp only: if_False)
    qed
    show ?thesis
    proof (cases "city_hits table text = []")
      case True
      from cities_loop_no_hit[OF True, of ?st1 lead ?f1] run
      have eqs: "st' = ?st1" "f' = ?f1" by simp_all
      show ?thesis unfolding eqs by (rule in1)
    next
      case False
      from Cons.IH[OF run False] show ?thesis .
    qed
  qed
qed

lemma county_text_cong:
  "map_of a ''title'' = map_of b ''title'' \<Longrightarrow> map_of a ''description'' = map_of b ''description'' \<Longrightarrow>
   county_text a = county_text b"
  by (simp add: county_text_def place_text_def get_def)

lemma city_stamps_other: "k \<noteq> ''county'' \<Longrightarrow> k \<noteq> ''city'' \<Longrightarrow> city_stamps hits m k = m k"
  by (simp add: city_stamps_def)

lemma geo_stamps_other: "k \<noteq> ''county'' \<Longrightarrow> k \<noteq> ''city'' \<Longrightarrow> geo_stamps cs tb text m k = m k"
  by (simp add: geo_stamps_def city_stamps_other split: option.splits)

lemma geo_stamps_idem: "geo_stamps cs tb text (geo_stamps cs tb text m) = geo_stamps cs tb text m"
  by (auto simp: geo_stamps_def city_stamps_def fun_eq_iff split: option.splits)

lemma county_text_geo:
  "map_of a = geo_stamps cs tb text (map_of b) \<Longrightarrow> county_text a = county_text b"
  by (rule county_text_cong) (simp_all add: geo_stamps_other)

lemma geo_map_idem:
  assumes "map_of a = geo_map cs tb b"
  shows "geo_map cs tb a = geo_map cs tb b"
proof -
  from assms have t: "county_text a = county_text b"
    unfolding geo_map_def by (rule county_text_geo)
  show ?thesis
    unfolding geo_map_def t using assms by (simp add: geo_map_def geo_stamps_idem)
qed

lemma county_step_cases:
  assumes "county_step cs text st lead filtered = (st1, f1)"
  shows "(first_county cs text = None \<and> st1 = st \<and> f1 = filtered) \<or>
         (\<exists>c. first_county cs text = Some c \<and> st1 = st(lead := setitem (st lead) ''county'' c) \<and>
              f1 = filtered @ [lead])"
  using assms by (auto simp: county_step_def split: option.splits)

lemma counties_lead_props:
  assumes run: "counties_lead cs tb st lead filtered = (st', f')"
  shows "\<forall>r. r \<noteq> lead \<longrightarrow> st' r = st r"
    and "map_of (st' lead) = geo_map cs tb (st lead)"
    and "f' = filtered \<or> f' = filtered @ [lead]"
    and "geo_hit cs tb (county_text (st lead)) \<Longrightarrow> py_in st' lead f'"
    and "\<not> geo_hit cs tb (county_text (st lead)) \<Longrightarrow> st' = st \<and> f' = filtered"
proof -
  let ?text = "county_text (st lead)"
  obtain st1 f1 where cs: "county_step cs ?text st lead filtered = (st1, f1)"
    by (cases "county_step cs ?text st lead filtered")
  with run have cl: "cities_loop tb ?text st1 lead f1 = (st', f')"
    by (simp add: counties_lead_def Let_def)
  note c1 = county_step_cases[OF cs]
  note s = cities_loop_store[OF cl]
  from c1 have o1: "\<forall>r. r \<noteq> lead \<longrightarrow> st1 r = st r" by auto
  with s show "\<forall>r. r \<noteq> lead \<longrightarrow> st' r = st r" by simp
  from c1 have m1: "map_of (st1 lead) =
      (case first_county cs ?text of None \<Rightarrow> map_of (st lead)
       | Some c \<Rightarrow> (map_of (st lead))(''county'' \<mapsto> c))"
    by (auto simp: map_of_setitem)
  from s have "map_of (st' lead) = city_stamps (city_hits tb ?text) (map_of (st1 lead))" by blast
  then show "map_of (st' lead) = geo_map cs tb (st lead)"
    unfolding m1 geo_map_def geo_stamps_def .
  note f = cities_loop_filtered[OF cl]
  from c1 f show "f' = filtered \<or> f' = filtered @ [lead]" by auto
  {
    assume hit: "geo_hit cs tb ?text"
    show "py_in st' lead f'"
    proof (cases "city_hits tb ?text = []")
      case True
      with hit obtain c where "first_county cs ?text = Some c" by (auto simp: geo_hit_def)
      with c1 have "lead \<in> set f1" by auto
      with f have "lead \<in> set f'" by auto
      then show ?thesis by (auto simp: py_in_iff)
    next
      case False
      from cities_loop_member[OF cl False] show ?thesis .
    qed
  }
  {
    assume nohit: "\<not> geo_hit cs tb ?text"
    then have a: "first_county cs ?text = None" and b: "city_hits tb ?text = []"
      by (auto simp: geo_hit_def)
    from c1 a have "st1 = st" "f1 = filtered" by auto
    with cities_loop_no_hit[OF b, of st1 lead f1] cl show "st' = st \<and> f' = filtered" by simp
  }
qed

subsection \<open>The geography filter: the loop over the leads\<close>

lemma stable_after: "map_of a = geo_map cs tb b \<Longrightarrow> stable cs tb a"
  by (simp add: stable_def geo_map_idem)

lemma counties_loop_store:
  assumes "counties_loop cs tb st leads filtered = (st', f')"
  shows "(\<forall>r. r \<notin> set leads \<longrightarrow> st' r = st r) \<and>
         (\<forall>r \<in> set leads. map_of (st' r) = geo_map cs tb (st r))"
  using assms
proof (induction leads arbitrary: st filtered)
  case Nil
  then show ?case by simp
next
  case (Cons lead leads)
  obtain st1 f1 where step: "counties_lead cs tb st lead filtered = (st1, f1)"
    by (cases "counties_lead cs tb st lead filtered")
  with Cons.prems have rest: "counties_loop cs tb st1 leads f1 = (st', f')" by simp
  note p = counties_lead_props[OF step]
  from Cons.IH[OF rest] have ih1: "\<forall>r. r \<notin> set leads \<longrightarrow> st' r = st1 r"
    and ih2: "\<forall>r \<in> set leads. map_of (st' r) = geo_map cs tb (st1 r)" by blast+
  have a: "\<forall>r. r \<notin> set (lead # leads) \<longrightarrow> st' r = st r"
    using ih1 p(1) by simp
  have b: "map_of (st' r) = geo_map cs tb (st r)" if "r \<in> set (lead # leads)" for r
  proof (cases "r = lead")
    case True
    show ?thesis
    proof (cases "lead \<in> set leads")
      case True
      with ih2 have "map_of (st' lead) = geo_map cs tb (st1 lead)" by blast
      also have "\<dots> = geo_map cs tb (st lead)" by (rule geo_map_idem) (rule p(2))
      finally show ?thesis using \<open>r = lead\<close> by simp
    next
      case False
      with ih1 have "st' lead = st1 lead" by blast
      with p(2) \<open>r = lead\<close> show ?thesis by simp
    qed
  next
    case False
    with that have "r \<in> set leads" by simp
    with ih2 have "map_of (st' r) = geo_map cs tb (st1 r)" by blast
    with p(1) False show ?thesis by simp
  qed
  from a b show ?case by blast
qed

lemma counties_loop_map:
  assumes "counties_loop cs tb st leads filtered = (st', f')"
  shows "map_of (st' r) = (if r \<in> set leads then geo_map cs tb (st r) else map_of (st r))"
  using counties_loop_store[OF assms] by simp

lemma counties_loop_text:
  assumes "counties_loop cs tb st leads filtered = (st', f')"
  shows "county_text (st' r) = county_text (st r)"
proof (cases "r \<in> set leads")
  case True
  with counties_loop_map[OF assms, of r]
  have "map_of (st' r) = geo_stamps cs tb (county_text (st r)) (map_of (st r))"
    by (simp add: geo_map_def)
  then show ?thesis by (rule county_text_geo)
next
  case False
  with counties_loop_store[OF assms] show ?thesis by simp
qed

lemma counties_loop_stable:
  assumes "counties_loop cs tb st leads filtered = (st', f')" and "stable cs tb (st r)"
  shows "map_of (st' r) = map_of (st r)"
  using counties_loop_map[OF assms(1), of r] assms(2) by (simp add: stable_def)

lemma counties_loop_prefix:
  assumes "counties_loop cs tb st leads filtered = (st', f')"
  shows "\<exists>ys. f' = filtered @ ys \<and> set ys \<subseteq> {r \<in> set leads. geo_hit cs tb (county_text (st r))}"
  using assms
proof (induction leads arbitrary: st filtered)
  case Nil
  then show ?case by simp
next
  case (Cons lead leads)
  obtain st1 f1 where step: "counties_lead cs tb st lead filtered = (st1, f1)"
    by (cases "counties_lead cs tb st lead filtered")
  with Cons.prems have rest: "counties_loop cs tb st1 leads f1 = (st', f')" by simp
  note p = counties_lead_props[OF step]
  from Cons.IH[OF rest] obtain ys where ys: "f' = f1 @ ys"
    "set ys \<subseteq> {r \<in> set leads. geo_hit cs tb (county_text (st1 r))}" by blast
  have t: "county_text (st1 r) = county_text (st r)" for r
  proof (cases "r = lead")
    case True
    from p(2) have "map_of (st1 lead) = geo_stamps cs tb (county_text (st lead)) (map_of (st lead))"
      by (simp add: geo_map_def)
    then have "county_text (st1 lead) = county_text (st lead)" by (rule county_text_geo)
    with True show ?thesis by simp
  next
    case False
    with p(1) show ?thesis by simp
  qed
  from p(3) p(5) obtain xs where xs: "f1 = filtered @ xs"
    "set xs \<subseteq> {r \<in> set (lead # leads). geo_hit cs tb (county_text (st r))}"
    by (cases "geo_hit cs tb (county_text (st lead))") auto
  from ys xs have "f' = filtered @ (xs @ ys)" by simp
  moreover from ys(2) xs(2) have
    "set (xs @ ys) \<subseteq> {r \<in> set (lead # leads). geo_hit cs tb (county_text (st r))}"
    unfolding t by auto
  ultimately show ?case by blast
qed

lemma py_in_mono:
  assumes "py_in st r rs" and "set rs \<subseteq> set rs'"
    and "\<forall>x \<in> insert r (set rs). map_of (st' x) = map_of (st x)"
  shows "py_in st' r rs'"
  using assms unfolding py_in_iff by (metis insertCI subsetD)

lemma counties_loop_member:
  assumes "counties_loop cs tb st leads filtered = (st', f')"
    and "\<forall>r \<in> set filtered. stable cs tb (st r)"
  shows "\<forall>r \<in> set leads. geo_hit cs tb (county_text (st r)) \<longrightarrow> py_in st' r f'"
  using assms
proof (induction leads arbitrary: st filtered)
  case Nil
  then show ?case by simp
next
  case (Cons lead leads)
  obtain st1 f1 where step: "counties_lead cs tb st lead filtered = (st1, f1)"
    by (cases "counties_lead cs tb st lead filtered")
  with Cons.prems have rest: "counties_loop cs tb st1 leads f1 = (st', f')" by simp
  note p = counties_lead_props[OF step]
  have st_lead: "stable cs tb (st1 lead)" by (rule stable_after) (rule p(2))
  have st_f1: "\<forall>r \<in> set f1. stable cs tb (st1 r)"
  proof
    fix r assume "r \<in> set f1"
    with p(3) have "r \<in> set filtered \<or> r = lead" by auto
    then show "stable cs tb (st1 r)"
    proof (cases "r = lead")
      case True
      with st_lead show ?thesis by simp
    next
      case False
      with \<open>r \<in> set filtered \<or> r = lead\<close> Cons.prems(2) p(1) show ?thesis by simp
    qed
  qed
  note ih = Cons.IH[OF rest st_f1]
  from counties_loop_prefix[OF rest] have sub: "set f1 \<subseteq> set f'" by auto
  have t: "county_text (st1 r) = county_text (st r)" for r
  proof (cases "r = lead")
    case True
    from p(2) have "map_of (st1 lead) = geo_stamps cs tb (county_text (st lead)) (map_of (st lead))"
      by (simp add: geo_map_def)
    then have "county_text (st1 lead) = county_text (st lead)" by (rule county_text_geo)
    with True show ?thesis by simp
  next
    case False
    with p(1) show ?thesis by simp
  qed
  show ?case
  proof (intro ballI impI)
    fix r assume r: "r \<in> set (lead # leads)" and hit: "geo_hit cs tb (county_text (st r))"
    show "py_in st' r f'"
    proof (cases "r \<in> set leads")
      case True
      with ih hit show ?thesis unfolding t by blast
    next
      case False
      with r have rl: "r = lead" by simp
      with hit p(4) have in1: "py_in st1 lead f1" by simp
      have "\<forall>x \<in> insert lead (set f1). map_of (st' x) = map_of (st1 x)"
        using st_lead st_f1 counties_loop_stable[OF rest] by blast
      from py_in_mono[OF in1 sub this] rl show ?thesis by simp
    qed
  qed
qed

lemma counties_loop_member_conv:
  assumes run: "counties_loop cs tb st leads [] = (st', f')"
    and r: "py_in st' r f'"
  shows "geo_hit cs tb (county_text (st r))"
proof -
  from counties_loop_prefix[OF run]
  have sub: "set f' \<subseteq> {r \<in> set leads. geo_hit cs tb (county_text (st r))}" by auto
  from r obtain r' where r': "r' \<in> set f'" "r' = r \<or> map_of (st' r') = map_of (st' r)"
    unfolding py_in_iff by blast
  from r'(1) sub have hit': "geo_hit cs tb (county_text (st r'))" by auto
  from r'(2) have "county_text (st' r') = county_text (st' r)"
    by (auto intro: county_text_cong)
  then have "county_text (st r') = county_text (st r)"
    by (simp add: counties_loop_text[OF run])
  with hit' show ?thesis by simp
qed

subsection \<open>The conditions of the specification\<close>

lemma industry_loop_result:
  "industry_loop kws st data acc =
     (st, acc @ filter (\<lambda>r. first_keyword kws (lower (item_text (st r))) \<noteq> None) data)"
  by (induction data arbitrary: acc) (auto split: option.splits)

lemma first_keyword_index:
  assumes "first_keyword kws (lower t) = Some k"
  shows "\<exists>i < length kws. k = kws ! i \<and> ci_substring (kws ! i) t \<and>
            (\<forall>j < i. \<not> ci_substring (kws ! j) t)"
  using assms unfolding first_keyword_Some ci_substring_def by blast

lemma first_city_Some:
  "first_city cl text = Some city \<Longrightarrow> city \<in> set cl \<and> sublist city text"
  by (auto simp: first_city_def find_Some_iff)

lemma first_city_None: "first_city cl text = None \<longleftrightarrow> (\<forall>city \<in> set cl. \<not> sublist city text)"
  by (auto simp: first_city_def find_None_iff)

lemma first_county_Some:
  "first_county cs (lower t) = Some c \<Longrightarrow> c \<in> set cs \<and> ci_substring c t"
  by (auto simp: first_county_def find_Some_iff ci_substring_def)

lemma first_county_None:
  "first_county cs (lower t) = None \<longleftrightarrow> (\<forall>c \<in> set cs. \<not> ci_substring c t)"
  by (auto simp: first_county_def find_None_iff ci_substring_def)

lemma city_hits_member:
  "(county, city) \<in> set (city_hits tb text) \<Longrightarrow>
     \<exists>cl. (county, cl) \<in> set tb \<and> first_city cl text = Some city"
proof (induction tb)
  case Nil
  then show ?case by simp
next
  case (Cons p tb)
  then show ?case by (cases p) (auto split: option.splits)
qed

lemma city_hits_empty:
  "city_hits tb text = [] \<longleftrightarrow> (\<forall>(county, cl) \<in> set tb. first_city cl text = None)"
proof (induction tb)
  case Nil
  then show ?case by simp
next
  case (Cons p tb)
  then show ?case by (cases p) (auto split: option.splits)
qed

lemma city_cond_iff: "city_cond tb d \<longleftrightarrow> city_hits tb (county_text d) \<noteq> []"
  unfolding city_cond_def city_hits_empty
  by (auto simp: first_city_None split: prod.splits) 

lemma county_cond_iff: "county_cond cs d \<longleftrightarrow> first_county cs (county_text d) \<noteq> None"
  unfolding county_cond_def county_text_def first_county_None by blast

lemma geo_hit_iff: "geo_hit cs tb (county_text d) \<longleftrightarrow> county_cond cs d \<or> city_cond tb d"
  by (simp add: geo_hit_def city_cond_iff county_cond_iff)

lemma geo_map_city:
  assumes "city_cond tb d"
  shows "\<exists>(county, city_list) \<in> set tb. \<exists>city \<in> set city_list. sublist city (county_text d) \<and>
            geo_map cs tb d ''county'' = Some county \<and> geo_map cs tb d ''city'' = Some (title city)"
proof -
  let ?hits = "city_hits tb (county_text d)"
  from assms have ne: "?hits \<noteq> []" by (simp add: city_cond_iff)
  obtain county city where l: "last ?hits = (county, city)" by (cases "last ?hits")
  with ne have "(county, city) \<in> set ?hits" by (metis last_in_set)
  from city_hits_member[OF this] obtain cl where cl: "(county, cl) \<in> set tb"
    "first_city cl (county_text d) = Some city" by blast
  from first_city_Some[OF cl(2)] have c: "city \<in> set cl" "sublist city (county_text d)" by simp_all
  from ne l have "geo_map cs tb d ''county'' = Some county" "geo_map cs tb d ''city'' = Some (title city)"
    by (simp_all add: geo_map_def geo_stamps_def city_stamps_def)
  with cl(1) c show ?thesis by blast
qed

lemma geo_map_county:
  assumes "county_cond cs d" and "\<not> city_cond tb d"
  shows "\<exists>county \<in> set cs. ci_substring county (place_text d) \<and> geo_map cs tb d ''county'' = Some county"
proof -
  from assms(1) obtain c where c: "first_county cs (lower (place_text d)) = Some c"
    by (auto simp: county_cond_iff county_text_def)
  from assms(2) have "city_hits tb (county_text d) = []" by (simp add: city_cond_iff)
  with c have "geo_map cs tb d ''county'' = Some c"
    by (simp add: geo_map_def geo_stamps_def county_text_def)
  with first_county_Some[OF c] show ?thesis by blast
qed

subsection \<open>Distinct leads\<close>

lemma same_apart_iff:
  "same_apart_from_place a b \<longleftrightarrow>
     (\<forall>k. k \<noteq> ''county'' \<and> k \<noteq> ''city'' \<longrightarrow> map_of a k = map_of b k)"
proof
  assume h: "same_apart_from_place a b"
  show "\<forall>k. k \<noteq> ''county'' \<and> k \<noteq> ''city'' \<longrightarrow> map_of a k = map_of b k"
  proof (intro allI impI)
    fix k assume k: "k \<noteq> ''county'' \<and> k \<noteq> ''city''"
    show "map_of a k = map_of b k"
    proof (cases "k \<in> fst ` set a \<union> fst ` set b")
      case True
      with h k show ?thesis
        by (auto simp: same_apart_from_place_def list_all_iff)
    next
      case False
      then have "map_of a k = None" "map_of b k = None"
        by (simp_all add: map_of_eq_None_iff)
      then show ?thesis by simp
    qed
  qed
next
  assume "\<forall>k. k \<noteq> ''county'' \<and> k \<noteq> ''city'' \<longrightarrow> map_of a k = map_of b k"
  then show "same_apart_from_place a b"
    by (auto simp: same_apart_from_place_def list_all_iff)
qed

lemma same_apart_maps: "map_of a = map_of b \<Longrightarrow> same_apart_from_place a b"
  by (simp add: same_apart_iff)

lemma city_hits_last:
  "i < length tb \<Longrightarrow> first_city (snd (tb ! i)) text = Some city \<Longrightarrow>
   (\<forall>j < length tb. i < j \<longrightarrow> first_city (snd (tb ! j)) text = None) \<Longrightarrow>
   city_hits tb text \<noteq> [] \<and> last (city_hits tb text) = (fst (tb ! i), city)"
proof (induction tb arbitrary: i)
  case Nil
  then show ?case by simp
next
  case (Cons p tb)
  obtain county cl where p: "p = (county, cl)" by (cases p)
  show ?case
  proof (cases i)
    case 0
    with Cons.prems(3) have "\<forall>j < length tb. first_city (snd (tb ! j)) text = None" by auto
    then have "city_hits tb text = []"
      unfolding city_hits_empty by (auto simp: in_set_conv_nth) (metis snd_conv)
    with 0 Cons.prems(2) p show ?thesis by simp
  next
    case (Suc i')
    with Cons.prems have a: "i' < length tb" "first_city (snd (tb ! i')) text = Some city"
      and b: "\<forall>j < length tb. i' < j \<longrightarrow> first_city (snd (tb ! j)) text = None"
      by auto
    from Cons.IH[OF a b] Suc p show ?thesis by (auto split: option.splits)
  qed
qed

lemma counties_loop_count:
  assumes "counties_loop cs tb st leads filtered = (st', f')"
  shows "count_list f' r \<le> count_list filtered r + count_list leads r"
  using assms
proof (induction leads arbitrary: st filtered)
  case Nil
  then show ?case by simp
next
  case (Cons lead leads)
  obtain st1 f1 where step: "counties_lead cs tb st lead filtered = (st1, f1)"
    by (cases "counties_lead cs tb st lead filtered")
  with Cons.prems have rest: "counties_loop cs tb st1 leads f1 = (st', f')" by simp
  from counties_lead_props(3)[OF step]
  have "count_list f1 r \<le> count_list filtered r + (if lead = r then 1 else 0)" by auto
  with Cons.IH[OF rest] show ?case by auto
qed

lemma cities_loop_distinct:
  assumes "cities_loop tb text st lead filtered = (st', f')"
    and "\<forall>r' \<in> set filtered. r' \<noteq> lead \<longrightarrow> \<not> same_apart_from_place (st r') (st lead)"
  shows "f' = (if lead \<in> set filtered \<or> city_hits tb text = [] then filtered else filtered @ [lead])"
  using assms
proof (induction tb arbitrary: st filtered)
  case Nil
  then show ?case by simp
next
  case (Cons p tb)
  obtain county city_list where p: "p = (county, city_list)" by (cases p)
  show ?case
  proof (cases "first_city city_list text")
    case None
    with Cons p show ?thesis by simp
  next
    case (Some city)
    let ?st1 = "st(lead := setitem (setitem (st lead) ''county'' county) ''city'' (title city))"
    let ?f1 = "if py_in ?st1 lead filtered then filtered else filtered @ [lead]"
    from Cons.prems(1) p Some have run: "cities_loop tb text ?st1 lead ?f1 = (st', f')"
      by (simp add: Let_def)
    have ap: "same_apart_from_place d (?st1 lead) \<longleftrightarrow> same_apart_from_place d (st lead)" for d
      by (simp add: same_apart_iff map_of_setitem)
    have pin: "py_in ?st1 lead filtered \<longleftrightarrow> lead \<in> set filtered"
    proof
      assume "py_in ?st1 lead filtered"
      then obtain r' where r': "r' \<in> set filtered" "r' = lead \<or> map_of (?st1 r') = map_of (?st1 lead)"
        unfolding py_in_iff by blast
      show "lead \<in> set filtered"
      proof (rule ccontr)
        assume n: "lead \<notin> set filtered"
        with r' have ne: "r' \<noteq> lead" and "map_of (?st1 r') = map_of (?st1 lead)" by auto
        then have "same_apart_from_place (?st1 r') (?st1 lead)" by (intro same_apart_maps)
        with ne have "same_apart_from_place (st r') (st lead)" unfolding ap by simp
        with Cons.prems(2) r'(1) ne show False by blast
      qed
    next
      assume "lead \<in> set filtered"
      then show "py_in ?st1 lead filtered" unfolding py_in_iff by blast
    qed
    have f1: "?f1 = (if lead \<in> set filtered then filtered else filtered @ [lead])"
      unfolding pin ..
    have in1: "lead \<in> set ?f1" unfolding f1 by simp
    have hyp: "\<forall>r' \<in> set ?f1. r' \<noteq> lead \<longrightarrow> \<not> same_apart_from_place (?st1 r') (?st1 lead)"
    proof (intro ballI impI)
      fix r' assume a: "r' \<in> set ?f1" "r' \<noteq> lead"
      then have "r' \<in> set filtered" unfolding f1 by (auto split: if_splits)
      with Cons.prems(2) a(2) have "\<not> same_apart_from_place (st r') (st lead)" by blast
      with a(2) show "\<not> same_apart_from_place (?st1 r') (?st1 lead)" unfolding ap by simp
    qed
    from Cons.IH[OF run hyp] in1 have "f' = ?f1" by simp
    then show ?thesis unfolding f1 by (simp add: p Some)
  qed
qed

lemma counties_lead_distinct:
  assumes run: "counties_lead cs tb st lead filtered = (st', f')"
    and nin: "lead \<notin> set filtered"
    and dif: "\<forall>r' \<in> set filtered. \<not> same_apart_from_place (st r') (st lead)"
  shows "f' = (if geo_hit cs tb (county_text (st lead)) then filtered @ [lead] else filtered)"
proof -
  let ?text = "county_text (st lead)"
  obtain st1 f1 where cs: "county_step cs ?text st lead filtered = (st1, f1)"
    by (cases "county_step cs ?text st lead filtered")
  with run have cl: "cities_loop tb ?text st1 lead f1 = (st', f')"
    by (simp add: counties_lead_def Let_def)
  from county_step_cases[OF cs] show ?thesis
  proof (elim disjE conjE exE)
    assume a: "first_county cs ?text = None" "st1 = st" "f1 = filtered"
    from cl have "cities_loop tb ?text st lead filtered = (st', f')" unfolding a .
    from cities_loop_distinct[OF this] dif nin a(1) show ?thesis
      by (auto simp: geo_hit_def)
  next
    fix c assume a: "first_county cs ?text = Some c"
      "st1 = st(lead := setitem (st lead) ''county'' c)" "f1 = filtered @ [lead]"
    have ap: "same_apart_from_place d (st1 lead) \<longleftrightarrow> same_apart_from_place d (st lead)" for d
      by (simp add: a(2) same_apart_iff map_of_setitem)
    have hyp: "\<forall>r' \<in> set f1. r' \<noteq> lead \<longrightarrow> \<not> same_apart_from_place (st1 r') (st1 lead)"
    proof (intro ballI impI)
      fix r' assume r': "r' \<in> set f1" "r' \<noteq> lead"
      then have "r' \<in> set filtered" by (simp add: a(3))
      with dif have "\<not> same_apart_from_place (st r') (st lead)" by blast
      with r'(2) show "\<not> same_apart_from_place (st1 r') (st1 lead)" unfolding ap by (simp add: a(2))
    qed
    from cities_loop_distinct[OF cl hyp] a show ?thesis by (simp add: geo_hit_def)
  qed
qed

lemma counties_loop_distinct:
  assumes "counties_loop cs tb st leads filtered = (st', f')"
    and "distinct leads" and "set leads \<inter> set filtered = {}"
    and "\<forall>r \<in> set leads. \<forall>r' \<in> set leads \<union> set filtered. r \<noteq> r' \<longrightarrow>
           \<not> same_apart_from_place (st r') (st r)"
  shows "f' = filtered @ filter (\<lambda>r. geo_hit cs tb (county_text (st r))) leads"
  using assms
proof (induction leads arbitrary: st filtered)
  case Nil
  then show ?case by simp
next
  case (Cons lead leads)
  obtain st1 f1 where step: "counties_lead cs tb st lead filtered = (st1, f1)"
    by (cases "counties_lead cs tb st lead filtered")
  with Cons.prems(1) have rest: "counties_loop cs tb st1 leads f1 = (st', f')" by simp
  note p = counties_lead_props[OF step]
  from Cons.prems(3) have nin: "lead \<notin> set filtered" by auto
  from Cons.prems(4) nin have dif: "\<forall>r' \<in> set filtered. \<not> same_apart_from_place (st r') (st lead)"
    by auto
  from counties_lead_distinct[OF step nin dif]
  have f1: "f1 = (if geo_hit cs tb (county_text (st lead)) then filtered @ [lead] else filtered)" .
  from Cons.prems(2) have d: "distinct leads" and ln: "lead \<notin> set leads" by auto
  from Cons.prems(3) ln have dj: "set leads \<inter> set f1 = {}" unfolding f1 by auto
  have un: "st1 r = st r" if "r \<noteq> lead" for r using p(1) that by simp
  have m1: "map_of (st1 lead) = geo_stamps cs tb (county_text (st lead)) (map_of (st lead))"
    using p(2) by (simp add: geo_map_def)
  have hyp: "\<forall>r \<in> set leads. \<forall>r' \<in> set leads \<union> set f1. r \<noteq> r' \<longrightarrow>
           \<not> same_apart_from_place (st1 r') (st1 r)"
  proof (intro ballI impI)
    fix r r' assume a: "r \<in> set leads" "r' \<in> set leads \<union> set f1" "r \<noteq> r'"
    from a(1) ln have rl: "r \<noteq> lead" by auto
    from a(2) have r'in: "r' \<in> set (lead # leads) \<union> set filtered"
      unfolding f1 by (auto split: if_splits)
    from a(1) have "r \<in> set (lead # leads)" by simp
    with Cons.prems(4) r'in a(3) have base: "\<not> same_apart_from_place (st r') (st r)" by blast
    show "\<not> same_apart_from_place (st1 r') (st1 r)"
    proof (cases "r' = lead")
      case True
      have "same_apart_from_place (st1 lead) (st r) \<longleftrightarrow> same_apart_from_place (st lead) (st r)"
        unfolding same_apart_iff m1 by (auto simp: geo_stamps_other)
      with base True rl show ?thesis by (simp add: un)
    next
      case False
      with base rl show ?thesis by (simp add: un)
    qed
  qed
  have "filter (\<lambda>r. geo_hit cs tb (county_text (st1 r))) leads =
        filter (\<lambda>r. geo_hit cs tb (county_text (st r))) leads"
  proof (rule filter_cong)
    fix x assume "x \<in> set leads"
    with ln have "x \<noteq> lead" by auto
    then show "geo_hit cs tb (county_text (st1 x)) = geo_hit cs tb (county_text (st x))"
      by (simp add: un)
  qed simp
  with Cons.IH[OF rest d dj hyp] show ?case unfolding f1 by simp
qed

subsection \<open>The two filters in either order\<close>

lemma same_stamps_iff:
  "same_apart_from_stamps a b \<longleftrightarrow>
     (\<forall>k. k \<noteq> ''county'' \<and> k \<noteq> ''city'' \<and> k \<noteq> ''matched_keyword'' \<longrightarrow> map_of a k = map_of b k)"
proof
  assume h: "same_apart_from_stamps a b"
  show "\<forall>k. k \<noteq> ''county'' \<and> k \<noteq> ''city'' \<and> k \<noteq> ''matched_keyword'' \<longrightarrow> map_of a k = map_of b k"
  proof (intro allI impI)
    fix k assume k: "k \<noteq> ''county'' \<and> k \<noteq> ''city'' \<and> k \<noteq> ''matched_keyword''"
    show "map_of a k = map_of b k"
    proof (cases "k \<in> fst ` set a \<union> fst ` set b")
      case True
      with h k show ?thesis
        by (auto simp: same_apart_from_stamps_def list_all_iff)
    next
      case False
      then have "map_of a k = None" "map_of b k = None"
        by (simp_all add: map_of_eq_None_iff)
      then show ?thesis by simp
    qed
  qed
next
  assume "\<forall>k. k \<noteq> ''county'' \<and> k \<noteq> ''city'' \<and> k \<noteq> ''matched_keyword'' \<longrightarrow> map_of a k = map_of b k"
  then show "same_apart_from_stamps a b"
    by (auto simp: same_apart_from_stamps_def list_all_iff)
qed

lemma same_place_stamps: "same_apart_from_place a b \<Longrightarrow> same_apart_from_stamps a b"
  by (simp add: same_apart_iff same_stamps_iff)

lemma industry_text_cong:
  "map_of a ''title'' = map_of b ''title'' \<Longrightarrow> map_of a ''description'' = map_of b ''description'' \<Longrightarrow>
   map_of a ''search_query'' = map_of b ''search_query'' \<Longrightarrow> industry_text a = industry_text b"
  by (simp add: industry_text_def lead_text_def get_def)

lemma county_text_setitem_mk: "county_text (setitem d ''matched_keyword'' k) = county_text d"
  by (simp add: county_text_def place_text_def get_setitem)

lemma county_text_industry_stamp:
  "county_text (industry_stamp industry_text kws d) = county_text d"
  by (simp add: industry_stamp_def county_text_setitem_mk split: option.splits)

lemma geo_stamps_mk:
  "geo_stamps cs tb text (m(''matched_keyword'' \<mapsto> k)) = (geo_stamps cs tb text m)(''matched_keyword'' \<mapsto> k)"
  by (auto simp: geo_stamps_def city_stamps_def fun_eq_iff split: option.splits)

lemma geo_map_industry_stamp:
  "geo_map cs tb (industry_stamp industry_text kws d) = final_map kws cs tb d"
  by (cases "first_keyword kws (industry_text d)")
     (simp_all add: geo_map_def final_map_def county_text_setitem_mk industry_stamp_def
        map_of_setitem)

lemma industry_text_geo:
  assumes "map_of a = geo_map cs tb b"
  shows "industry_text a = industry_text b"
  by (rule industry_text_cong) (simp_all add: assms geo_map_def geo_stamps_other)

lemma industry_stamp_geo:
  assumes "map_of a = geo_map cs tb b"
  shows "map_of (industry_stamp industry_text kws a) = final_map kws cs tb b"
  using assms
  by (simp add: industry_stamp_def industry_text_geo[OF assms] final_map_def map_of_setitem
      geo_map_def geo_stamps_mk split: option.splits)

lemma geo_map_eq_texts:
  assumes "geo_map cs tb a = geo_map cs tb b"
  shows "county_text a = county_text b" and "industry_text a = industry_text b"
proof -
  have k: "map_of a k = map_of b k" if "k \<noteq> ''county''" "k \<noteq> ''city''" for k
    using fun_cong[OF assms, of k] that by (simp add: geo_map_def geo_stamps_other)
  show "county_text a = county_text b" by (rule county_text_cong) (simp_all add: k)
  show "industry_text a = industry_text b" by (rule industry_text_cong) (simp_all add: k)
qed

lemma final_map_alt:
  "final_map kws cs tb d =
     (case first_keyword kws (industry_text d) of
        None \<Rightarrow> geo_map cs tb d
      | Some k \<Rightarrow> (geo_map cs tb d)(''matched_keyword'' \<mapsto> k))"
  by (simp add: final_map_def geo_map_def geo_stamps_mk split: option.splits)

lemma final_map_cong:
  assumes "geo_map cs tb a = geo_map cs tb b"
  shows "final_map kws cs tb a = final_map kws cs tb b"
  unfolding final_map_alt using assms geo_map_eq_texts(2)[OF assms]
  by (cases "first_keyword kws (industry_text b)") simp_all

lemma filter_industries_result:
  "filter_industries kws st leads =
     (\<lambda>r. if r \<in> set leads then industry_stamp industry_text kws (st r) else st r,
      filter (\<lambda>r. first_keyword kws (industry_text (st r)) \<noteq> None) leads)"
  unfolding filter_industries_def
  using industries_loop_result[where text_of = industry_text and acc = "[]", OF industry_text_setitem]
  by simp

lemma counties_loop_values:
  assumes run: "counties_loop cs tb st leads [] = (st', kept)"
  shows "(\<lambda>r. map_of (st' r)) ` set kept =
         (\<lambda>r. geo_map cs tb (st r)) ` {r \<in> set leads. geo_hit cs tb (county_text (st r))}"
proof (intro set_eqI iffI)
  fix m assume "m \<in> (\<lambda>r. map_of (st' r)) ` set kept"
  then obtain r where r: "r \<in> set kept" "m = map_of (st' r)" by blast
  from counties_loop_prefix[OF run] r(1)
  have "r \<in> set leads" "geo_hit cs tb (county_text (st r))" by auto
  moreover from this counties_loop_store[OF run] have "map_of (st' r) = geo_map cs tb (st r)" by blast
  ultimately show "m \<in> (\<lambda>r. geo_map cs tb (st r)) ` {r \<in> set leads. geo_hit cs tb (county_text (st r))}"
    using r(2) by blast
next
  fix m assume "m \<in> (\<lambda>r. geo_map cs tb (st r)) ` {r \<in> set leads. geo_hit cs tb (county_text (st r))}"
  then obtain r where r: "r \<in> set leads" "geo_hit cs tb (county_text (st r))" "m = geo_map cs tb (st r)"
    by blast
  have "\<forall>r \<in> set leads. geo_hit cs tb (county_text (st r)) \<longrightarrow> py_in st' r kept"
    by (rule counties_loop_member[OF run]) simp
  with r have "py_in st' r kept" by blast
  then obtain r' where r': "r' \<in> set kept" "map_of (st' r') = map_of (st' r)"
    unfolding py_in_iff by auto
  from r(1) counties_loop_store[OF run] have "map_of (st' r) = geo_map cs tb (st r)" by blast
  with r' r(3) show "m \<in> (\<lambda>r. map_of (st' r)) ` set kept" by force
qed

lemma order_a_values:
  assumes a1: "filter_industries kws st leads = (st1, kept1)"
    and a2: "filter_counties cs tb st1 kept1 = (st2, kept2)"
  shows "(\<lambda>r. map_of (st2 r)) ` set kept2 =
         (\<lambda>r. final_map kws cs tb (st r)) `
           {r \<in> set leads. first_keyword kws (industry_text (st r)) \<noteq> None \<and>
                            geo_hit cs tb (county_text (st r))}"
    and "\<forall>r \<in> set kept2. map_of (st2 r) = final_map kws cs tb (st r)"
    and "\<forall>r \<in> set kept1. county_text (st1 r) = county_text (st r)"
proof -
  from a1 have st1: "st1 = (\<lambda>r. if r \<in> set leads then industry_stamp industry_text kws (st r) else st r)"
    and k1: "kept1 = filter (\<lambda>r. first_keyword kws (industry_text (st r)) \<noteq> None) leads"
    by (simp_all add: filter_industries_result)
  from a2 have run: "counties_loop cs tb st1 kept1 [] = (st2, kept2)"
    by (simp add: filter_counties_def)
  have g: "geo_map cs tb (st1 r) = final_map kws cs tb (st r)" if "r \<in> set kept1" for r
    using that by (simp add: st1 k1 geo_map_industry_stamp)
  have t: "county_text (st1 r) = county_text (st r)" if "r \<in> set kept1" for r
    using that by (simp add: st1 k1 county_text_industry_stamp)
  then show "\<forall>r \<in> set kept1. county_text (st1 r) = county_text (st r)" by blast
  have "(\<lambda>r. map_of (st2 r)) ` set kept2 =
        (\<lambda>r. geo_map cs tb (st1 r)) ` {r \<in> set kept1. geo_hit cs tb (county_text (st1 r))}"
    by (rule counties_loop_values[OF run])
  also have "\<dots> = (\<lambda>r. final_map kws cs tb (st r)) ` {r \<in> set kept1. geo_hit cs tb (county_text (st r))}"
    using g t by (auto simp: image_iff) 
  also have "{r \<in> set kept1. geo_hit cs tb (county_text (st r))} =
     {r \<in> set leads. first_keyword kws (industry_text (st r)) \<noteq> None \<and>
                            geo_hit cs tb (county_text (st r))}"
    by (auto simp: k1)
  finally show "(\<lambda>r. map_of (st2 r)) ` set kept2 =
         (\<lambda>r. final_map kws cs tb (st r)) `
           {r \<in> set leads. first_keyword kws (industry_text (st r)) \<noteq> None \<and>
                            geo_hit cs tb (county_text (st r))}" .
  show "\<forall>r \<in> set kept2. map_of (st2 r) = final_map kws cs tb (st r)"
  proof
    fix r assume r: "r \<in> set kept2"
    with counties_loop_prefix[OF run] have r1: "r \<in> set kept1" by auto
    with counties_loop_store[OF run] have "map_of (st2 r) = geo_map cs tb (st1 r)" by blast
    with g[OF r1] show "map_of (st2 r) = final_map kws cs tb (st r)" by simp
  qed
qed

lemma order_b_values:
  assumes b1: "filter_counties cs tb st leads = (s1, j1)"
    and b2: "filter_industries kws s1 j1 = (s2, j2)"
  shows "(\<lambda>r. map_of (s2 r)) ` set j2 =
         (\<lambda>r. final_map kws cs tb (st r)) `
           {r \<in> set leads. first_keyword kws (industry_text (st r)) \<noteq> None \<and>
                            geo_hit cs tb (county_text (st r))}"
    and "\<forall>r \<in> set j2. map_of (s2 r) = final_map kws cs tb (st r)"
    and "j2 = filter (\<lambda>r. first_keyword kws (industry_text (st r)) \<noteq> None) j1"
proof -
  let ?ih = "\<lambda>r. first_keyword kws (industry_text (st r)) \<noteq> None"
  let ?F = "\<lambda>r. final_map kws cs tb (st r)"
  from b1 have run: "counties_loop cs tb st leads [] = (s1, j1)"
    by (simp add: filter_counties_def)
  from b2 have s2: "s2 = (\<lambda>r. if r \<in> set j1 then industry_stamp industry_text kws (s1 r) else s1 r)"
    and j2: "j2 = filter (\<lambda>r. first_keyword kws (industry_text (s1 r)) \<noteq> None) j1"
    by (simp_all add: filter_industries_result)
  from counties_loop_prefix[OF run]
  have sub: "set j1 \<subseteq> {r \<in> set leads. geo_hit cs tb (county_text (st r))}" by auto
  have m: "map_of (s1 r) = geo_map cs tb (st r)" if "r \<in> set leads" for r
    using counties_loop_store[OF run] that by blast
  have it: "industry_text (s1 r) = industry_text (st r)" if "r \<in> set leads" for r
    by (rule industry_text_geo) (rule m[OF that])
  have j2': "j2 = filter ?ih j1"
    unfolding j2 by (rule filter_cong) (use sub it in auto)
  then show "j2 = filter ?ih j1" .
  have f: "map_of (s2 r) = ?F r" if "r \<in> set j1" for r
  proof -
    from that sub have "r \<in> set leads" by auto
    from industry_stamp_geo[OF m[OF this]] that show ?thesis by (simp add: s2)
  qed
  then show "\<forall>r \<in> set j2. map_of (s2 r) = ?F r" by (simp add: j2')
  have mem: "\<forall>r \<in> set leads. geo_hit cs tb (county_text (st r)) \<longrightarrow> py_in s1 r j1"
    by (rule counties_loop_member[OF run]) simp
  show "(\<lambda>r. map_of (s2 r)) ` set j2 =
         ?F ` {r \<in> set leads. ?ih r \<and> geo_hit cs tb (county_text (st r))}"
  proof (intro set_eqI iffI)
    fix x assume "x \<in> (\<lambda>r. map_of (s2 r)) ` set j2"
    then obtain r where r: "r \<in> set j2" "x = map_of (s2 r)" by blast
    from r(1) have "r \<in> set j1" "?ih r" by (simp_all add: j2')
    with sub f r(2) show "x \<in> ?F ` {r \<in> set leads. ?ih r \<and> geo_hit cs tb (county_text (st r))}"
      by auto
  next
    fix x assume "x \<in> ?F ` {r \<in> set leads. ?ih r \<and> geo_hit cs tb (county_text (st r))}"
    then obtain r where r: "r \<in> set leads" "?ih r" "geo_hit cs tb (county_text (st r))" "x = ?F r"
      by blast
    with mem have "py_in s1 r j1" by blast
    then obtain r' where r': "r' \<in> set j1" "map_of (s1 r') = map_of (s1 r)"
      unfolding py_in_iff by auto
    from r'(1) sub have r'l: "r' \<in> set leads" by auto
    from r'(2) m[OF r'l] m[OF r(1)] have ge: "geo_map cs tb (st r') = geo_map cs tb (st r)" by simp
    from geo_map_eq_texts(2)[OF ge] r(2) have "?ih r'" by simp
    with r'(1) have "r' \<in> set j2" by (simp add: j2')
    moreover from final_map_cong[OF ge] f[OF r'(1)] r(4) have "x = map_of (s2 r')" by simp
    ultimately show "x \<in> (\<lambda>r. map_of (s2 r)) ` set j2" by blast
  qed
qed

subsection \<open>What the filters leave alone\<close>


lemma industries_loop_writes:
  assumes inv: "\<And>d k. text_of (setitem d ''matched_keyword'' k) = text_of d"
    and run: "industries_loop text_of kws st leads [] = (st', kept)"
  shows "(\<forall>r k. k \<noteq> ''matched_keyword'' \<longrightarrow> map_of (st' r) k = map_of (st r) k)
       \<and> (\<forall>r. r \<notin> set kept \<longrightarrow> st' r = st r)"
proof -
  from run industries_loop_result[where text_of = text_of and acc = "[]", OF inv, of kws st leads]
  have st': "st' = (\<lambda>r. if r \<in> set leads then industry_stamp text_of kws (st r) else st r)"
    and k: "kept = filter (\<lambda>r. first_keyword kws (text_of (st r)) \<noteq> None) leads"
    by simp_all
  have a: "map_of (st' r) k = map_of (st r) k" if "k \<noteq> ''matched_keyword''" for r k
    using that by (simp add: st' industry_stamp_def map_of_setitem split: option.splits)
  have b: "st' r = st r" if "r \<notin> set kept" for r
    using that by (auto simp: st' k industry_stamp_def)
  from a b show ?thesis by blast
qed

subsection \<open>The OSHA collector\<close>

lemma readable_simps [simp]:
  "readable [] = []"
  "readable (Inl e # xs) = readable xs"
  "readable (Inr d # xs) = d # readable xs"
  by (simp_all add: readable_def map_filter_simps)

lemma length_readable: "length (readable xs) \<le> length xs"
proof (induction xs)
  case Nil
  then show ?case by simp
next
  case (Cons x xs)
  then show ?case by (cases x) simp_all
qed

lemma osha_loop_result:
  "osha_loop state divs incidents =
     incidents @ map (osha_incident state)
       (filter (\<lambda>d. sublist ''MA'' (get_text d) \<or> sublist ''Massachusetts'' (get_text d))
          (readable divs))"
proof (induction divs arbitrary: incidents)
  case Nil
  then show ?case by simp
next
  case (Cons x divs)
  then show ?case by (cases x) simp_all
qed

lemma search_osha_data_200:
  "fst (search_osha_data (Inr (200, incident_divs)) state) =
     map (osha_incident state)
       (filter (\<lambda>d. sublist ''MA'' (get_text d) \<or> sublist ''Massachusetts'' (get_text d))
          (readable (take 20 incident_divs)))"
  by (simp add: search_osha_data_def osha_loop_result)

lemma search_osha_data_cases:
  "fst (search_osha_data response state) = [] \<or>
   (\<exists>incident_divs. response = Inr (200, incident_divs))"
  by (auto simp: search_osha_data_def split: sum.splits)

subsection \<open>Delivery\<close>

lemma file_writes_append [simp]: "file_writes (a @ b) = file_writes a @ file_writes b"
  by (induction a rule: file_writes.induct) simp_all

lemma smtp_payloads_append [simp]: "smtp_payloads (a @ b) = smtp_payloads a @ smtp_payloads b"
  by (induction a rule: smtp_payloads.induct) simp_all

lemma save_to_file_writes:
  "file_writes (snd (save_to_file w html)) = [(''lead_report_'' @ today_ymd w @ ''.html'', html)]"
  "smtp_payloads (snd (save_to_file w html)) = []"
  by (simp_all add: save_to_file_def Let_def split: option.splits)

lemma save_to_file_result:
  "fst (save_to_file w html) = Inl e \<longleftrightarrow>
     file_system w (''lead_report_'' @ today_ymd w @ ''.html'') html = Some e"
  by (auto simp: save_to_file_def Let_def split: option.splits)

subsection \<open>Rendering\<close>

lemma sublist_segment: "seg \<in> set segs \<Longrightarrow> sublist x seg \<Longrightarrow> sublist x (concat segs)"
proof -
  assume a: "seg \<in> set segs" and b: "sublist x seg"
  from a obtain xs ys where "segs = xs @ seg # ys" by (meson split_list)
  then have "concat segs = concat xs @ seg @ concat ys" by simp
  then have "sublist seg (concat segs)" by (metis sublist_appendI)
  with b show ?thesis by (rule sublist_order.order.trans)
qed

lemma format_permit_html_segments:
  \<open>format_permit_html permit = concat
     [''\<newline>        <div class="lead '' @ (if truthy (map_of permit ''priority'') then ''priority'' else '''') @ ''">\<newline>'',
      ''            '' @ field_html ''Business'' (get permit ''name'' ''N/A'') @ ''\<newline>'',
      ''            '' @ field_html ''Address'' (get permit ''address'' ''N/A'') @ ''\<newline>'',
      ''            '' @ field_html ''City'' (get permit ''city'' ''N/A'' @ '', '' @ get permit ''county'' ''N/A'' @ '' County'') @ ''\<newline>'',
      ''            '' @ field_html ''Project Type'' (get permit ''project_type'' ''N/A'') @ ''\<newline>'',
      ''            '' @ field_html ''Permit Date'' (get permit ''date'' ''N/A'') @ ''\<newline>'',
      ''            '' @ field_html ''Industry'' (get permit ''industry'' ''N/A'') @ ''\<newline>'',
      ''            '' @ (if truthy (map_of permit ''phone'')
                          then field_html ''Phone'' (get permit ''phone'' ''N/A'') else '''') @ ''\<newline>'',
      ''            '' @ (if truthy (map_of permit ''website'')
                          then ''<div class="field"><span class="label">Website:</span> <a href="''
                               @ get permit ''website'' ''None'' @ ''">'' @ get permit ''website'' ''None''
                               @ ''</a></div>''
                          else '''') @ ''\<newline>'',
      ''            '' @ field_html ''Estimated Value'' (''$'' @ get permit ''value'' ''N/A'') @ ''\<newline>'',
      ''        </div>\<newline>        '']\<close>
  by (simp add: format_permit_html_def field_html_def Let_def)

lemma news_lead_html_segments:
  \<open>news_lead_html lead = concat
     [''\<newline>            <div class="lead">\<newline>'',
      ''                <span class="source-tag">NEWS</span>\<newline>'',
      ''                '' @ (''<div class="lead-title">'' @ get lead ''title'' ''N/A'' @ ''</div>'') @ ''\<newline>'',
      ''                '' @ detail_html ''Description'' (get lead ''description'' ''N/A'') @ ''\<newline>'',
      ''                '' @ detail_html ''Date'' (get lead ''date'' ''N/A'') @ ''\<newline>'',
      ''                '' @ detail_html ''Industry Match'' (get lead ''matched_keyword'' ''N/A'') @ ''\<newline>'',
      ''                <div class="lead-detail">'' @ (''<a href="'' @ get lead ''url'' ''#'' @ ''">'') @
         ''Read full article '' @ [CHR 0xE2, CHR 0x86, CHR 0x92] @ ''</a></div>\<newline>'',
      ''            </div>\<newline>            '']\<close>
  by (simp add: news_lead_html_def detail_html_def)

lemma permit_field_shown:
  assumes "''            '' @ field_html label shown @ ''\<newline>'' \<in> set segs"
  shows "sublist (field_html label shown) (concat segs)"
  using assms by (rule sublist_segment) (rule sublist_appendI)

lemma news_field_shown:
  assumes "''                '' @ x @ ''\<newline>'' \<in> set segs"
  shows "sublist x (concat segs)"
  using assms by (rule sublist_segment) (rule sublist_appendI)

subsection \<open>The collectors of the two monitors\<close>



lemma news_loop_result:
  "news_loop http_get quote queries leads out =
     (case find (query_raises http_get quote) queries of
        None \<Rightarrow> None
      | Some query \<Rightarrow> (case http_get (news_url quote query) of Inl e \<Rightarrow> Some e | Inr a \<Rightarrow> None),
      leads @ concat (map (query_leads http_get quote)
                 (takeWhile (\<lambda>query. \<not> query_raises http_get quote query) queries)),
      out @ map (\<lambda>query. ''Searching news: '' @ query)
              (takeWhile (\<lambda>query. \<not> query_raises http_get quote query) queries
               @ take 1 (dropWhile (\<lambda>query. \<not> query_raises http_get quote query) queries)))"
proof (induction queries arbitrary: leads out)
  case Nil
  then show ?case by simp
next
  case (Cons query queries)
  show ?case
  proof (cases "http_get (news_url quote query)")
    case (Inl e)
    then show ?thesis by (simp add: query_raises_def)
  next
    case (Inr answer)
    obtain status_code items where a: "answer = (status_code, items)" by (cases answer)
    from Inr a have nr: "\<not> query_raises http_get quote query" by (simp add: query_raises_def)
    from Inr a have ql: "query_leads http_get quote query =
        (if status_code = 200 then map (news_lead query) (take 5 items) else [])"
      by (simp add: query_leads_def)
    show ?thesis using Inr a nr ql by (simp add: Cons.IH)
  qed
qed

lemma search_google_news_leads:
  "fst (search_google_news http_get quote query location) =
     concat (map (query_leads http_get quote)
       (takeWhile (\<lambda>query. \<not> query_raises http_get quote query) (search_queries location)))"
  by (simp add: search_google_news_def news_loop_result split: option.splits sum.splits)


lemma search_google_news_no_error:
  assumes "find (query_raises http_get quote) (search_queries location) = None"
  shows "snd (search_google_news http_get quote query location) =
           map (\<lambda>query. ''Searching news: '' @ query) (search_queries location)"
proof -
  from assms have "\<forall>q \<in> set (search_queries location). \<not> query_raises http_get quote q"
    by (simp add: find_None_iff)
  then have tw: "takeWhile (\<lambda>query. \<not> query_raises http_get quote query) (search_queries location)
      = search_queries location"
    and dw: "dropWhile (\<lambda>query. \<not> query_raises http_get quote query) (search_queries location) = []"
    by simp_all
  show ?thesis unfolding search_google_news_def news_loop_result tw dw assms by simp
qed

lemma run_full_scan_leads: "fst (run_full_scan http_get quote osha_response) =
       prod_filter_by_target_industries
         (fst (alloc (fst (search_google_news http_get quote ''new business opening'' ''Massachusetts'')
                      @ fst (search_osha_data osha_response ''MA''))))
         (snd (alloc (fst (search_google_news http_get quote ''new business opening'' ''Massachusetts'')
                      @ fst (search_osha_data osha_response ''MA''))))
         target_keywords"
proof -
  obtain news out1 where n:
    "search_google_news http_get quote ''new business opening'' ''Massachusetts'' = (news, out1)"
    by (cases "search_google_news http_get quote ''new business opening'' ''Massachusetts''")
  obtain osha out2 where o: "search_osha_data osha_response ''MA'' = (osha, out2)"
    by (cases "search_osha_data osha_response ''MA''")
  obtain st refs where a: "alloc (news @ osha) = (st, refs)"
    by (cases "alloc (news @ osha)")
  obtain st' filtered where f: "prod_filter_by_target_industries st refs target_keywords = (st', filtered)"
    by (cases "prod_filter_by_target_industries st refs target_keywords")
  have "run_full_scan http_get quote osha_response =
     ((st', filtered),
           [replicate 60 (CHR ''=''), ''STARTING FULL LEAD SCAN'', replicate 60 (CHR ''='')]
           @ out1 @ out2
           @ [''\<newline>Total leads found: '' @ str_nat (length (news @ osha)),
              ''Filtered to target industries: '' @ str_nat (length filtered)])"
    unfolding run_full_scan_def n o prod.case Let_def a f ..
  then show ?thesis unfolding n o fst_conv a snd_conv f by (simp only: fst_conv)
qed

subsection \<open>Priorities\<close>

lemma alloc_store: "r < length ds \<Longrightarrow> fst (alloc ds) r = ds ! r"
  by (simp add: alloc_def)

lemma alloc_refs: "snd (alloc ds) = [0..<length ds]"
  by (simp add: alloc_def)

lemma news_lead_fields:
  "map_of (news_lead query item) ''source'' = Some ''Google News''"
  "map_of (news_lead query item) ''priority'' = None"
  by (simp_all add: news_lead_def)

lemma osha_incident_fields:
  "map_of (osha_incident state d) ''source'' = Some ''OSHA''"
  "map_of (osha_incident state d) ''priority'' = Some ''High''"
  by (simp_all add: osha_incident_def)

lemma query_leads_shape:
  "lead \<in> set (query_leads http_get quote query) \<Longrightarrow> \<exists>item. lead = news_lead query item"
  by (auto simp: query_leads_def split: sum.splits if_splits)

lemma search_google_news_shape:
  assumes "lead \<in> set (fst (search_google_news http_get quote query location))"
  shows "\<exists>q item. lead = news_lead q item"
proof -
  from assms obtain q where "lead \<in> set (query_leads http_get quote q)"
    unfolding search_google_news_leads by auto
  from query_leads_shape[OF this] show ?thesis by blast
qed

lemma search_osha_data_shape:
  assumes "incident \<in> set (fst (search_osha_data response state))"
  shows "\<exists>d. incident = osha_incident state d"
proof -
  from assms search_osha_data_cases[of response state]
  obtain ds where "response = Inr (200, ds)" by auto
  with assms show ?thesis by (auto simp: search_osha_data_200)
qed

lemma industries_loop_kept:
  assumes inv: "\<And>d k. text_of (setitem d ''matched_keyword'' k) = text_of d"
    and run: "industries_loop text_of kws st leads [] = (st', kept)"
  shows "set kept \<subseteq> set leads"
proof -
  from run industries_loop_result[where text_of = text_of and acc = "[]", OF inv, of kws st leads]
  have "kept = filter (\<lambda>r. first_keyword kws (text_of (st r)) \<noteq> None) leads" by simp
  then show ?thesis by auto
qed

lemma slip_fall_loop_kept:
  "slip_fall_loop st incidents filtered = (st', kept) \<Longrightarrow>
   \<forall>r \<in> set filtered. map_of (st r) ''priority'' = Some ''High'' \<Longrightarrow>
   \<forall>r \<in> set kept. map_of (st' r) ''priority'' = Some ''High''"
proof (induction incidents arbitrary: st filtered)
  case Nil
  then show ?case by simp
next
  case (Cons incident incidents)
  let ?hit = "list_ex (\<lambda>keyword. sublist keyword
       (lower (get (st incident) ''violations'' [] @ '' '' @ get (st incident) ''hazards'' [])))
       slip_fall_keywords"
  let ?st1 = "st(incident := setitem (setitem (st incident) ''priority'' ''High'')
                        ''match_reason'' ''Slip/trip/fall related incident'')"
  show ?case
  proof (cases ?hit)
    case True
    with Cons.prems(1) have run: "slip_fall_loop ?st1 incidents (filtered @ [incident]) = (st', kept)"
      by (simp add: Let_def)
    have "\<forall>r \<in> set (filtered @ [incident]). map_of (?st1 r) ''priority'' = Some ''High''"
      using Cons.prems(2) by (simp add: map_of_setitem)
    from Cons.IH[OF run this] show ?thesis .
  next
    case False
    with Cons.prems(1) have run: "slip_fall_loop st incidents filtered = (st', kept)"
      by (simp add: Let_def)
    from Cons.IH[OF run Cons.prems(2)] show ?thesis .
  qed
qed

lemma slip_fall_loop_list:
  "snd (slip_fall_loop st incidents filtered) =
     filtered @ filter (\<lambda>r. slip_fall_hit (st r)) incidents"
proof (induction incidents arbitrary: st filtered)
  case Nil
  then show ?case by simp
next
  case (Cons incident incidents)
  let ?st1 = "st(incident := setitem (setitem (st incident) ''priority'' ''High'')
                        ''match_reason'' ''Slip/trip/fall related incident'')"
  have same: "slip_fall_hit (?st1 r) = slip_fall_hit (st r)" for r
    by (simp add: slip_fall_hit_def get_setitem)
  have feq: "filter (\<lambda>r. slip_fall_hit (?st1 r)) incidents = filter (\<lambda>r. slip_fall_hit (st r)) incidents"
    by (simp only: same)
  show ?case
  proof (cases "slip_fall_hit (st incident)")
    case True
    have step: "slip_fall_loop st (incident # incidents) filtered =
        slip_fall_loop ?st1 incidents (filtered @ [incident])"
      using True unfolding slip_fall_hit_def by (simp add: Let_def)
    have "snd (slip_fall_loop st (incident # incidents) filtered) =
        snd (slip_fall_loop ?st1 incidents (filtered @ [incident]))"
      by (simp only: step)
    also have "\<dots> = (filtered @ [incident]) @ filter (\<lambda>r. slip_fall_hit (?st1 r)) incidents"
      by (rule Cons.IH)
    also have "\<dots> = filtered @ filter (\<lambda>r. slip_fall_hit (st r)) (incident # incidents)"
      unfolding feq using True by simp
    finally show ?thesis .
  next
    case False
    have step: "slip_fall_loop st (incident # incidents) filtered = slip_fall_loop st incidents filtered"
      using False unfolding slip_fall_hit_def by (simp add: Let_def)
    have "snd (slip_fall_loop st (incident # incidents) filtered) =
        snd (slip_fall_loop st incidents filtered)"
      by (simp only: step)
    also have "\<dots> = filtered @ filter (\<lambda>r. slip_fall_hit (st r)) incidents"
      by (rule Cons.IH)
    also have "\<dots> = filtered @ filter (\<lambda>r. slip_fall_hit (st r)) (incident # incidents)"
      using False by simp
    finally show ?thesis .
  qed
qed

lemma run_full_scan_priority:
  assumes "r < length (fst (search_google_news http_get quote ''new business opening'' ''Massachusetts'')
                       @ fst (search_osha_data response ''MA''))"
  shows "map_of (fst (fst (run_full_scan http_get quote response)) r) ''priority'' =
         map_of ((fst (search_google_news http_get quote ''new business opening'' ''Massachusetts'')
                  @ fst (search_osha_data response ''MA'')) ! r) ''priority''"
proof -
  let ?all = "fst (search_google_news http_get quote ''new business opening'' ''Massachusetts'')
              @ fst (search_osha_data response ''MA'')"
  let ?run = "prod_filter_by_target_industries (fst (alloc ?all)) (snd (alloc ?all)) target_keywords"
  have fs: "fst (run_full_scan http_get quote response) = ?run" by (rule run_full_scan_leads)
  have pt: "lower (prod_lead_text (setitem d ''matched_keyword'' k)) = lower (prod_lead_text d)" for d k
    by (simp add: prod_text_setitem)
  have loop: "industries_loop (\<lambda>lead. lower (prod_lead_text lead)) target_keywords
        (fst (alloc ?all)) (snd (alloc ?all)) [] = (fst ?run, snd ?run)"
    by (simp add: prod_filter_by_target_industries_def)
  from industries_loop_writes[where text_of = "\<lambda>lead. lower (prod_lead_text lead)", OF pt loop]
  have "\<forall>r k. k \<noteq> ''matched_keyword'' \<longrightarrow> map_of (fst ?run r) k = map_of (fst (alloc ?all) r) k"
    by (rule conjunct1)
  then have "map_of (fst ?run r) ''priority'' = map_of (fst (alloc ?all) r) ''priority''" by simp
  with alloc_store[OF assms] show ?thesis unfolding fs by simp
qed

lemma run_full_scan_sources:
  assumes r: "r \<in> set (snd (fst (run_full_scan http_get quote response)))"
  shows "(\<exists>q item. \<forall>k. k \<noteq> ''matched_keyword'' \<longrightarrow>
            map_of (fst (fst (run_full_scan http_get quote response)) r) k = map_of (news_lead q item) k)
       \<or> (\<exists>d. \<forall>k. k \<noteq> ''matched_keyword'' \<longrightarrow>
            map_of (fst (fst (run_full_scan http_get quote response)) r) k = map_of (osha_incident ''MA'' d) k)"
proof -
  let ?news = "fst (search_google_news http_get quote ''new business opening'' ''Massachusetts'')"
  let ?osha = "fst (search_osha_data response ''MA'')"
  let ?all = "?news @ ?osha"
  let ?run = "prod_filter_by_target_industries (fst (alloc ?all)) (snd (alloc ?all)) target_keywords"
  have fs: "fst (run_full_scan http_get quote response) = ?run" by (rule run_full_scan_leads)
  have pt: "lower (prod_lead_text (setitem d ''matched_keyword'' k)) = lower (prod_lead_text d)" for d k
    by (simp add: prod_text_setitem)
  have loop: "industries_loop (\<lambda>lead. lower (prod_lead_text lead)) target_keywords
        (fst (alloc ?all)) (snd (alloc ?all)) [] = (fst ?run, snd ?run)"
    by (simp add: prod_filter_by_target_industries_def)
  note w = industries_loop_writes[where text_of = "\<lambda>lead. lower (prod_lead_text lead)", OF pt loop]
  note k = industries_loop_kept[where text_of = "\<lambda>lead. lower (prod_lead_text lead)", OF pt loop]
  from r fs k have "r \<in> set (snd (alloc ?all))" by auto
  then have rl: "r < length ?all" by (simp add: alloc_refs)
  then have a: "fst (alloc ?all) r = ?all ! r" by (rule alloc_store)
  from w have "\<forall>r k. k \<noteq> ''matched_keyword'' \<longrightarrow>
      map_of (fst ?run r) k = map_of (fst (alloc ?all) r) k" by (rule conjunct1)
  then have "\<forall>k. k \<noteq> ''matched_keyword'' \<longrightarrow> map_of (fst ?run r) k = map_of (fst (alloc ?all) r) k"
    by (rule spec)
  then have same: "\<forall>k. k \<noteq> ''matched_keyword'' \<longrightarrow> map_of (fst ?run r) k = map_of (?all ! r) k"
    unfolding a .
  from rl have "?all ! r \<in> set ?all" by (rule nth_mem)
  then have "?all ! r \<in> set ?news \<or> ?all ! r \<in> set ?osha" by simp
  then show ?thesis
  proof
    assume "?all ! r \<in> set ?news"
    from search_google_news_shape[OF this] obtain q item where e: "?all ! r = news_lead q item" by blast
    from same have x: "\<forall>k. k \<noteq> ''matched_keyword'' \<longrightarrow>
            map_of (fst (fst (run_full_scan http_get quote response)) r) k = map_of (news_lead q item) k"
      unfolding fs e .
    show ?thesis by (rule disjI1, intro exI, rule x)
  next
    assume "?all ! r \<in> set ?osha"
    from search_osha_data_shape[OF this] obtain d where e: "?all ! r = osha_incident ''MA'' d" by blast
    from same have x: "\<forall>k. k \<noteq> ''matched_keyword'' \<longrightarrow>
            map_of (fst (fst (run_full_scan http_get quote response)) r) k = map_of (osha_incident ''MA'' d) k"
      unfolding fs e .
    show ?thesis by (rule disjI2, intro exI, rule x)
  qed
qed

section \<open>The claims\<close>

subsection \<open>C1: a collector that fails\<close>




subsection \<open>C2: the industry filter and the keyword matcher\<close>

text \<open>
  Claim C2 fails for \<open>LeadMonitor.filter_by_industry\<close>, which keeps an item whose text holds a
  keyword and records no keyword on it: the item \<open>{'name': 'Grand Hotel'}\<close> is kept and has no
  \<open>matched_keyword\<close> afterwards.
\<close>

theorem industry_filter_stamp_counterexample:
  "snd (filter_by_industry example_store [2]) = [2]
   \<and> map_of (fst (filter_by_industry example_store [2]) 2) ''matched_keyword'' = None"
  by code_simp

text \<open>
  Claim C2, amended. \<open>HistoricalDataCollector.filter_by_target_industries\<close>, for every keyword
  list, store and list of leads: the kept leads are exactly the input leads, in their order, for
  which some keyword is a case-insensitive substring of the text \<open>title description
  search_query\<close>; every kept lead carries in \<open>matched_keyword\<close> the first keyword of the list, in
  list order, that is such a substring. \<open>LeadMonitor.filter_by_industry\<close> keeps the items by the
  same test on \<open>name description industry\<close> and writes nothing.
\<close>

theorem industry_filter_contract:
  assumes "filter_industries keywords st leads = (st', kept)"
  shows "kept = filter (\<lambda>r. \<exists>k \<in> set keywords. ci_substring k (lead_text (st r))) leads
    \<and> (\<forall>r \<in> set kept. \<exists>i < length keywords.
          map_of (st' r) ''matched_keyword'' = Some (keywords ! i)
        \<and> ci_substring (keywords ! i) (lead_text (st r))
        \<and> (\<forall>j < i. \<not> ci_substring (keywords ! j) (lead_text (st r))))
    \<and> snd (filter_by_industry st leads) =
         filter (\<lambda>r. \<exists>k \<in> set LM_TARGET_INDUSTRIES. ci_substring k (item_text (st r))) leads
    \<and> fst (filter_by_industry st leads) = st"
proof -
  have res: "filter_industries keywords st leads =
     (\<lambda>r. if r \<in> set leads then industry_stamp industry_text keywords (st r) else st r,
      filter (\<lambda>r. first_keyword keywords (industry_text (st r)) \<noteq> None) leads)"
    unfolding filter_industries_def
    using industries_loop_result[where text_of = industry_text and acc = "[]", OF industry_text_setitem]
    by simp
  with assms have st': "st' = (\<lambda>r. if r \<in> set leads then industry_stamp industry_text keywords (st r) else st r)"
    and kept: "kept = filter (\<lambda>r. first_keyword keywords (industry_text (st r)) \<noteq> None) leads"
    by simp_all
  have a: "kept = filter (\<lambda>r. \<exists>k \<in> set keywords. ci_substring k (lead_text (st r))) leads"
    unfolding kept industry_text_def first_keyword_ci ..
  have b: "\<exists>i < length keywords.
          map_of (st' r) ''matched_keyword'' = Some (keywords ! i)
        \<and> ci_substring (keywords ! i) (lead_text (st r))
        \<and> (\<forall>j < i. \<not> ci_substring (keywords ! j) (lead_text (st r)))" if "r \<in> set kept" for r
  proof -
    from that kept have rl: "r \<in> set leads" and "first_keyword keywords (industry_text (st r)) \<noteq> None"
      by auto
    then obtain k where k: "first_keyword keywords (lower (lead_text (st r))) = Some k"
      by (auto simp: industry_text_def)
    with rl have "map_of (st' r) ''matched_keyword'' = Some k"
      by (simp add: st' industry_stamp_def industry_text_def map_of_setitem)
    with first_keyword_index[OF k] show ?thesis by auto
  qed
  have c: "snd (filter_by_industry st leads) =
         filter (\<lambda>r. \<exists>k \<in> set LM_TARGET_INDUSTRIES. ci_substring k (item_text (st r))) leads"
    unfolding filter_by_industry_def industry_loop_result snd_conv append_Nil first_keyword_ci ..
  have d: "fst (filter_by_industry st leads) = st"
    by (simp add: filter_by_industry_def industry_loop_result)
  from a b c d show ?thesis by blast
qed

theorem industry_filter_contract_witness:
  "snd (filter_industries TARGET_INDUSTRIES example_store [0, 3]) = [0]
   \<and> (\<exists>i < length TARGET_INDUSTRIES.
         map_of (fst (filter_industries TARGET_INDUSTRIES example_store [0, 3]) 0) ''matched_keyword''
           = Some (TARGET_INDUSTRIES ! i)
       \<and> ci_substring (TARGET_INDUSTRIES ! i) (lead_text (example_store 0))
       \<and> (\<forall>j < i. \<not> ci_substring (TARGET_INDUSTRIES ! j) (lead_text (example_store 0))))
   \<and> map_of (fst (filter_industries TARGET_INDUSTRIES example_store [0, 3]) 0) ''matched_keyword''
       = Some ''restaurant''
   \<and> snd (filter_by_industry example_store [2, 3]) = [2]"
proof -
  have run: "filter_industries TARGET_INDUSTRIES example_store [0, 3] =
      (fst (filter_industries TARGET_INDUSTRIES example_store [0, 3]),
       snd (filter_industries TARGET_INDUSTRIES example_store [0, 3]))"
    by simp
  have k: "snd (filter_industries TARGET_INDUSTRIES example_store [0, 3]) = [0]"
    by code_simp
  have m: "map_of (fst (filter_industries TARGET_INDUSTRIES example_store [0, 3]) 0) ''matched_keyword''
       = Some ''restaurant''"
    by code_simp
  have l: "snd (filter_by_industry example_store [2, 3]) = [2]"
    by code_simp
  from industry_filter_contract[OF run] k m l show ?thesis by simp
qed

subsection \<open>C3: the geography filter\<close>

text \<open>
  Claim C3 says that every input lead with a county or city match appears in the output.
  \<open>HistoricalDataCollector.filter_by_target_counties\<close> does not do this for a lead whose match
  is a city: it appends the lead under the guard \<open>if lead not in filtered\<close>, which compares
  dicts by their fields. The input below holds two leads, distinct objects with the same title
  \<open>Cafe opens in Cambridge\<close>. Both are stamped with county \<open>Middlesex\<close> and city \<open>Cambridge\<close>,
  and only the first is returned: the second has a city match and is not in the output. The
  other path of the same function, for a match of a county name, appends without the guard:
  of two equal leads titled \<open>Norfolk County fair\<close> both are returned.
\<close>

theorem geography_filter_equal_leads:
  "corner_store 0 = corner_store 1
   \<and> first_city (snd (cities ! 0)) (county_text (corner_store 1)) = Some ''cambridge''
   \<and> snd (filter_by_target_counties corner_store [0, 1]) = [0]
   \<and> map_of (fst (filter_by_target_counties corner_store [0, 1]) 1) ''county'' = Some ''Middlesex''
   \<and> map_of (fst (filter_by_target_counties corner_store [0, 1]) 1) ''city'' = Some ''Cambridge''
   \<and> corner_store 2 = corner_store 3
   \<and> first_county TARGET_COUNTIES (county_text (corner_store 3)) = Some ''Norfolk''
   \<and> snd (filter_by_target_counties corner_store [2, 3]) = [2, 3]"
  by code_simp

text \<open>
  What the filter does guarantee, for every county list, city table, store and list of leads.
  Membership in the output is here Python's \<open>lead in output\<close> (the same object or a dict with
  the same fields), read after the call. An input lead is in the output in this sense iff a
  county name occurs case-insensitively in its text \<open>title description\<close> or a city of the table
  occurs in the lower-cased text. Every output lead is an input lead for which this holds. A
  lead with a city match carries the county and the title-cased name of a matching city of
  the table; a lead with a county match and no city match carries a county of the list that
  occurs in its text. When the input leads are distinct objects of which no two agree on every
  field other than \<open>county\<close> and \<open>city\<close>, an input lead is itself an element of the output iff
  the condition holds.
\<close>

theorem geography_filter_contract:
  assumes "filter_counties counties table st leads = (st', kept)"
  shows "(\<forall>r \<in> set leads. py_in st' r kept \<longleftrightarrow> county_cond counties (st r) \<or> city_cond table (st r))
    \<and> (\<forall>r \<in> set kept. r \<in> set leads \<and> (county_cond counties (st' r) \<or> city_cond table (st' r)))
    \<and> (\<forall>r \<in> set leads. city_cond table (st r) \<longrightarrow>
          (\<exists>(county, city_list) \<in> set table. \<exists>city \<in> set city_list.
              sublist city (county_text (st r)) \<and>
              map_of (st' r) ''county'' = Some county \<and>
              map_of (st' r) ''city'' = Some (title city)))
    \<and> (\<forall>r \<in> set leads. county_cond counties (st r) \<and> \<not> city_cond table (st r) \<longrightarrow>
          (\<exists>county \<in> set counties. ci_substring county (place_text (st r)) \<and>
              map_of (st' r) ''county'' = Some county))
    \<and> (distinct leads \<and>
        (\<forall>r \<in> set leads. \<forall>r' \<in> set leads. r \<noteq> r' \<longrightarrow> \<not> same_apart_from_place (st r') (st r)) \<longrightarrow>
        (\<forall>r \<in> set leads. r \<in> set kept \<longleftrightarrow> county_cond counties (st r) \<or> city_cond table (st r)))"
proof -
  from assms have run: "counties_loop counties table st leads [] = (st', kept)"
    by (simp add: filter_counties_def)
  have mem: "\<forall>r \<in> set leads. geo_hit counties table (county_text (st r)) \<longrightarrow> py_in st' r kept"
    by (rule counties_loop_member[OF run]) simp
  note conv = counties_loop_member_conv[OF run]
  have a: "\<forall>r \<in> set leads. py_in st' r kept \<longleftrightarrow> county_cond counties (st r) \<or> city_cond table (st r)"
    using mem conv by (auto simp: geo_hit_iff)
  from counties_loop_prefix[OF run]
  have sub: "set kept \<subseteq> {r \<in> set leads. geo_hit counties table (county_text (st r))}" by auto
  have tx: "county_text (st' r) = county_text (st r)" for r
    by (rule counties_loop_text[OF run])
  have b: "\<forall>r \<in> set kept. r \<in> set leads \<and> (county_cond counties (st' r) \<or> city_cond table (st' r))"
  proof
    fix r assume "r \<in> set kept"
    with sub have "r \<in> set leads" "geo_hit counties table (county_text (st' r))"
      by (auto simp: tx)
    then show "r \<in> set leads \<and> (county_cond counties (st' r) \<or> city_cond table (st' r))"
      by (simp add: geo_hit_iff)
  qed
  have m: "map_of (st' r) = geo_map counties table (st r)" if "r \<in> set leads" for r
    using counties_loop_store[OF run] that by blast
  have c: "\<forall>r \<in> set leads. city_cond table (st r) \<longrightarrow>
          (\<exists>(county, city_list) \<in> set table. \<exists>city \<in> set city_list.
              sublist city (county_text (st r)) \<and>
              map_of (st' r) ''county'' = Some county \<and>
              map_of (st' r) ''city'' = Some (title city))"
    using geo_map_city[of table _ counties] by (simp add: m)
  have d: "\<forall>r \<in> set leads. county_cond counties (st r) \<and> \<not> city_cond table (st r) \<longrightarrow>
          (\<exists>county \<in> set counties. ci_substring county (place_text (st r)) \<and>
              map_of (st' r) ''county'' = Some county)"
    using geo_map_county[of counties _ table] by (simp add: m)
  have e: "\<forall>r \<in> set leads. r \<in> set kept \<longleftrightarrow> county_cond counties (st r) \<or> city_cond table (st r)"
    if "distinct leads"
      and "\<forall>r \<in> set leads. \<forall>r' \<in> set leads. r \<noteq> r' \<longrightarrow> \<not> same_apart_from_place (st r') (st r)"
  proof -
    from counties_loop_distinct[OF run that(1)] that(2)
    have "kept = filter (\<lambda>r. geo_hit counties table (county_text (st r))) leads" by simp
    then show ?thesis by (simp add: geo_hit_iff)
  qed
  from a b c d e show ?thesis by blast
qed

theorem geography_filter_contract_witness:
  "snd (filter_counties TARGET_COUNTIES cities example_store [0, 3]) = [0]
   \<and> py_in (fst (filter_counties TARGET_COUNTIES cities example_store [0, 3])) 0 [0]
   \<and> city_cond cities (example_store 0)
   \<and> \<not> py_in (fst (filter_counties TARGET_COUNTIES cities example_store [0, 3])) 3 [0]
   \<and> \<not> (county_cond TARGET_COUNTIES (example_store 3) \<or> city_cond cities (example_store 3))
   \<and> map_of (fst (filter_counties TARGET_COUNTIES cities example_store [0, 3]) 0) ''county''
        = Some ''Middlesex''
   \<and> map_of (fst (filter_counties TARGET_COUNTIES cities example_store [0, 3]) 0) ''city''
        = Some ''Cambridge''"
proof -
  let ?run = "filter_counties TARGET_COUNTIES cities example_store [0, 3]"
  have run: "?run = (fst ?run, snd ?run)" by simp
  have k: "snd ?run = [0]" by code_simp
  have c0: "city_cond cities (example_store 0)" by code_simp
  have c3: "\<not> (county_cond TARGET_COUNTIES (example_store 3) \<or> city_cond cities (example_store 3))"
    by code_simp
  have s: "map_of (fst ?run 0) ''county'' = Some ''Middlesex''"
    "map_of (fst ?run 0) ''city'' = Some ''Cambridge''" by code_simp+
  from geography_filter_contract[OF run] k c0 c3 s show ?thesis by simp
qed

subsection \<open>C4: a lead that mentions several cities\<close>

text \<open>
  Claim C4 says that the first matching city in the order of the table wins and that no later
  match changes the stamp. \<open>HistoricalDataCollector.filter_by_target_counties\<close> does not do
  this when the cities belong to different counties. Its \<open>break\<close> ends the loop over one
  county's cities only; the loop over the counties goes on, and every later county with a
  matching city writes \<open>county\<close> and \<open>city\<close> again. For the single lead titled \<open>Cafe opens in
  Cambridge and Quincy\<close> the first matching city of the table is \<open>cambridge\<close> (Middlesex); the
  lead is returned once, with county \<open>Norfolk\<close> and city \<open>Quincy\<close>. The loop over the county
  names in the same function does stop at its first match: a lead titled \<open>Storm in Norfolk and
  Middlesex\<close> gets \<open>Middlesex\<close>, the first county of the list.
\<close>

theorem multi_city_last_county_wins:
  "fst (cities ! 0) = ''Middlesex''
   \<and> first_city (snd (cities ! 0)) (county_text (example_store 1)) = Some ''cambridge''
   \<and> snd (filter_by_target_counties example_store [1]) = [1]
   \<and> map_of (fst (filter_by_target_counties example_store [1]) 1) ''county'' = Some ''Norfolk''
   \<and> map_of (fst (filter_by_target_counties example_store [1]) 1) ''city'' = Some ''Quincy''
   \<and> TARGET_COUNTIES ! 0 = ''Middlesex''
   \<and> snd (filter_by_target_counties corner_store [4]) = [4]
   \<and> map_of (fst (filter_by_target_counties corner_store [4]) 4) ''county'' = Some ''Middlesex''"
  by code_simp

text \<open>
  What the code does instead, for every county list, city table, store and list of leads: a
  lead is stamped with the county and the title-cased name of the first matching city of the
  last table entry that has a matching city (within one county the first city of its list
  wins, across counties the last county wins); no lead occurs in the output more often than in
  the input; and when the input leads are distinct objects of which no two agree on every
  field other than \<open>county\<close> and \<open>city\<close>, the output is exactly the list of the input leads with
  a county or city match, each once, in input order.
\<close>

theorem multi_city_tie_break:
  assumes "filter_counties counties table st leads = (st', kept)"
  shows "(\<forall>r \<in> set leads. \<forall>i < length table. \<forall>city.
            first_city (snd (table ! i)) (county_text (st r)) = Some city \<and>
            (\<forall>j < length table. i < j \<longrightarrow>
                first_city (snd (table ! j)) (county_text (st r)) = None) \<longrightarrow>
            map_of (st' r) ''county'' = Some (fst (table ! i)) \<and>
            map_of (st' r) ''city'' = Some (title city))
    \<and> (\<forall>r. count_list kept r \<le> count_list leads r)
    \<and> (distinct leads \<and>
        (\<forall>r \<in> set leads. \<forall>r' \<in> set leads. r \<noteq> r' \<longrightarrow> \<not> same_apart_from_place (st r') (st r)) \<longrightarrow>
        kept = filter (\<lambda>r. county_cond counties (st r) \<or> city_cond table (st r)) leads)"
proof -
  from assms have run: "counties_loop counties table st leads [] = (st', kept)"
    by (simp add: filter_counties_def)
  have m: "map_of (st' r) = geo_map counties table (st r)" if "r \<in> set leads" for r
    using counties_loop_store[OF run] that by blast
  have a: "map_of (st' r) ''county'' = Some (fst (table ! i)) \<and>
           map_of (st' r) ''city'' = Some (title city)"
    if r: "r \<in> set leads" and i: "i < length table"
      and h: "first_city (snd (table ! i)) (county_text (st r)) = Some city"
      and l: "\<forall>j < length table. i < j \<longrightarrow> first_city (snd (table ! j)) (county_text (st r)) = None"
    for r i city
  proof -
    from city_hits_last[OF i h l] show ?thesis
      by (simp add: m[OF r] geo_map_def geo_stamps_def city_stamps_def)
  qed
  have b: "count_list kept r \<le> count_list leads r" for r
    using counties_loop_count[OF run, of r] by simp
  have c: "kept = filter (\<lambda>r. county_cond counties (st r) \<or> city_cond table (st r)) leads"
    if "distinct leads"
      and "\<forall>r \<in> set leads. \<forall>r' \<in> set leads. r \<noteq> r' \<longrightarrow> \<not> same_apart_from_place (st r') (st r)"
  proof -
    from counties_loop_distinct[OF run that(1)] that(2)
    have "kept = filter (\<lambda>r. geo_hit counties table (county_text (st r))) leads" by simp
    then show ?thesis by (simp add: geo_hit_iff)
  qed
  from a b c show ?thesis by blast
qed

theorem multi_city_tie_break_witness:
  "first_city (snd (cities ! 1)) (county_text (example_store 1)) = Some ''quincy''
   \<and> first_city (snd (cities ! 2)) (county_text (example_store 1)) = None
   \<and> map_of (fst (filter_counties TARGET_COUNTIES cities example_store [0, 1, 3]) 1) ''county''
       = Some (fst (cities ! 1))
   \<and> map_of (fst (filter_counties TARGET_COUNTIES cities example_store [0, 1, 3]) 1) ''city''
       = Some (title ''quincy'')
   \<and> distinct [0, 1, 3 :: nat]
   \<and> snd (filter_counties TARGET_COUNTIES cities example_store [0, 1, 3]) = [0, 1]
   \<and> count_list (snd (filter_counties TARGET_COUNTIES cities example_store [0, 1, 3])) 1 = 1"
proof -
  let ?run = "filter_counties TARGET_COUNTIES cities example_store [0, 1, 3]"
  have run: "?run = (fst ?run, snd ?run)" by simp
  note t = multi_city_tie_break[OF run]
  have h: "first_city (snd (cities ! 1)) (county_text (example_store 1)) = Some ''quincy''"
    by code_simp
  have l: "\<forall>j < length cities. 1 < j \<longrightarrow>
             first_city (snd (cities ! j)) (county_text (example_store 1)) = None"
  proof (intro allI impI)
    fix j assume "j < length cities" "1 < j"
    then have "j = 2" by (simp add: cities_def)
    moreover have "first_city (snd (cities ! 2)) (county_text (example_store 1)) = None"
      by code_simp
    ultimately show "first_city (snd (cities ! j)) (county_text (example_store 1)) = None" by simp
  qed
  have i: "(1::nat) < length cities" by (simp add: cities_def)
  have r: "(1::nat) \<in> set [0, 1, 3]" by simp
  from t h l i r have s: "map_of (fst ?run 1) ''county'' = Some (fst (cities ! 1)) \<and>
      map_of (fst ?run 1) ''city'' = Some (title ''quincy'')" by blast
  have d: "distinct [0, 1, 3 :: nat]" by simp
  have e: "\<forall>r \<in> set [0, 1, 3]. \<forall>r' \<in> set [0, 1, 3]. r \<noteq> r' \<longrightarrow>
          \<not> same_apart_from_place (example_store r') (example_store r)"
    by code_simp
  from t d e have k0: "snd ?run =
      filter (\<lambda>r. county_cond TARGET_COUNTIES (example_store r) \<or> city_cond cities (example_store r)) [0, 1, 3]"
    by blast
  have k1: "filter (\<lambda>r. county_cond TARGET_COUNTIES (example_store r) \<or> city_cond cities (example_store r)) [0, 1, 3] = [0, 1]"
    by code_simp
  from k0 k1 have k: "snd ?run = [0, 1]" by simp
  then have c: "count_list (snd ?run) 1 = 1" by simp
  have l2: "first_city (snd (cities ! 2)) (county_text (example_store 1)) = None"
    by code_simp
  from h l2 s d k c show ?thesis by blast
qed

subsection \<open>C5: the two filters in either order\<close>

text \<open>
  Claim C5. For every keyword list, county list, city table, store and list of leads: the
  industry filter followed by the geography filter, and the geography filter followed by the
  industry filter, both started on the same store and list, end with the same set of leads, a
  lead being the contents (keys and values) of an output dict. When the input leads are distinct
  objects of which no two agree on every field other than \<open>county\<close>, \<open>city\<close> and
  \<open>matched_keyword\<close>, the two output lists are moreover the same list of objects, with the same
  contents.
\<close>

theorem filter_order_commutes:
  assumes "filter_industries keywords st leads = (st1, kept1)"
    and "filter_counties counties table st1 kept1 = (st2, kept2)"
    and "filter_counties counties table st leads = (st1', kept1')"
    and "filter_industries keywords st1' kept1' = (st2', kept2')"
  shows "(\<lambda>r. map_of (st2 r)) ` set kept2 = (\<lambda>r. map_of (st2' r)) ` set kept2'
    \<and> (distinct leads \<and>
        (\<forall>r \<in> set leads. \<forall>r' \<in> set leads. r \<noteq> r' \<longrightarrow> \<not> same_apart_from_stamps (st r') (st r)) \<longrightarrow>
        kept2 = kept2' \<and> (\<forall>r \<in> set kept2. map_of (st2 r) = map_of (st2' r)))"
proof -
  note a = order_a_values[OF assms(1,2)]
  note b = order_b_values[OF assms(3,4)]
  have v: "(\<lambda>r. map_of (st2 r)) ` set kept2 = (\<lambda>r. map_of (st2' r)) ` set kept2'"
    unfolding a(1) b(1) ..
  have l: "kept2 = kept2' \<and> (\<forall>r \<in> set kept2. map_of (st2 r) = map_of (st2' r))"
    if d: "distinct leads"
      and n: "\<forall>r \<in> set leads. \<forall>r' \<in> set leads. r \<noteq> r' \<longrightarrow> \<not> same_apart_from_stamps (st r') (st r)"
  proof -
    let ?ih = "\<lambda>r. first_keyword keywords (industry_text (st r)) \<noteq> None"
    let ?gh = "\<lambda>r. geo_hit counties table (county_text (st r))"
    from assms(1) have st1: "st1 = (\<lambda>r. if r \<in> set leads then industry_stamp industry_text keywords (st r) else st r)"
      and k1: "kept1 = filter ?ih leads"
      by (simp_all add: filter_industries_result)
    from assms(2) have runa: "counties_loop counties table st1 kept1 [] = (st2, kept2)"
      by (simp add: filter_counties_def)
    from assms(3) have runb: "counties_loop counties table st leads [] = (st1', kept1')"
      by (simp add: filter_counties_def)
    have d1: "distinct kept1" using d by (simp add: k1)
    have ap: "same_apart_from_stamps (st1 r) (st r)" if "r \<in> set leads" for r
      using that
      by (auto simp: st1 same_stamps_iff industry_stamp_def map_of_setitem split: option.splits)
    have n1: "\<forall>r \<in> set kept1. \<forall>r' \<in> set kept1 \<union> set []. r \<noteq> r' \<longrightarrow>
                \<not> same_apart_from_place (st1 r') (st1 r)"
    proof (intro ballI impI notI)
      fix r r' assume h: "r \<in> set kept1" "r' \<in> set kept1 \<union> set []" "r \<noteq> r'"
        "same_apart_from_place (st1 r') (st1 r)"
      then have rl: "r \<in> set leads" "r' \<in> set leads" by (simp_all add: k1)
      from h(4) have "same_apart_from_stamps (st1 r') (st1 r)" by (rule same_place_stamps)
      with ap[OF rl(1)] ap[OF rl(2)] have "same_apart_from_stamps (st r') (st r)"
        unfolding same_stamps_iff by metis
      with n rl h(3) show False by blast
    qed
    from counties_loop_distinct[OF runa d1 _ n1]
    have "kept2 = filter (\<lambda>r. geo_hit counties table (county_text (st1 r))) kept1" by simp
    also have "\<dots> = filter ?gh kept1"
      by (rule filter_cong) (use a(3) in auto)
    finally have ka: "kept2 = filter (\<lambda>r. ?ih r \<and> ?gh r) leads"
      by (simp add: k1 conj_commute)
    have n0: "\<forall>r \<in> set leads. \<forall>r' \<in> set leads \<union> set []. r \<noteq> r' \<longrightarrow>
                \<not> same_apart_from_place (st r') (st r)"
      using n same_place_stamps by auto
    from counties_loop_distinct[OF runb d _ n0]
    have "kept1' = filter ?gh leads" by simp
    with b(3) have kb: "kept2' = filter (\<lambda>r. ?ih r \<and> ?gh r) leads"
      by (simp add: conj_commute)
    from ka kb have "kept2 = kept2'" by simp
    with a(2) b(2) show ?thesis by simp
  qed
  from v l show ?thesis by blast
qed

theorem filter_order_commutes_witness:
  "snd (filter_counties TARGET_COUNTIES cities
          (fst (filter_industries TARGET_INDUSTRIES example_store [0, 1, 3]))
          (snd (filter_industries TARGET_INDUSTRIES example_store [0, 1, 3]))) = [0, 1]
   \<and> snd (filter_industries TARGET_INDUSTRIES
          (fst (filter_counties TARGET_COUNTIES cities example_store [0, 1, 3]))
          (snd (filter_counties TARGET_COUNTIES cities example_store [0, 1, 3]))) = [0, 1]
   \<and> distinct [0, 1, 3 :: nat]
   \<and> map_of (fst (filter_counties TARGET_COUNTIES cities
          (fst (filter_industries TARGET_INDUSTRIES example_store [0, 1, 3]))
          (snd (filter_industries TARGET_INDUSTRIES example_store [0, 1, 3]))) 0)
      = map_of (fst (filter_industries TARGET_INDUSTRIES
          (fst (filter_counties TARGET_COUNTIES cities example_store [0, 1, 3]))
          (snd (filter_counties TARGET_COUNTIES cities example_store [0, 1, 3]))) 0)"
proof -
  let ?a1 = "filter_industries TARGET_INDUSTRIES example_store [0, 1, 3]"
  let ?a2 = "filter_counties TARGET_COUNTIES cities (fst ?a1) (snd ?a1)"
  let ?b1 = "filter_counties TARGET_COUNTIES cities example_store [0, 1, 3]"
  let ?b2 = "filter_industries TARGET_INDUSTRIES (fst ?b1) (snd ?b1)"
  have r: "?a1 = (fst ?a1, snd ?a1)" "?a2 = (fst ?a2, snd ?a2)"
    "?b1 = (fst ?b1, snd ?b1)" "?b2 = (fst ?b2, snd ?b2)" by simp_all
  note t = filter_order_commutes[OF r]
  have d: "distinct [0, 1, 3 :: nat]" by simp
  have e: "\<forall>r \<in> set [0, 1, 3]. \<forall>r' \<in> set [0, 1, 3]. r \<noteq> r' \<longrightarrow>
          \<not> same_apart_from_stamps (example_store r') (example_store r)"
    by code_simp
  from t d e have eq: "snd ?a2 = snd ?b2" "\<forall>r \<in> set (snd ?a2). map_of (fst ?a2 r) = map_of (fst ?b2 r)"
    by blast+
  have k: "snd ?a2 = [0, 1]" by code_simp
  with eq show ?thesis by simp
qed

subsection \<open>C6: the fallback to a file when delivery fails\<close>

text \<open>
  Claim C6. \<open>LeadMonitor.send_email\<close>, for every world and every report string: when the
  password is absent (or empty) or sending raises, exactly one file write is attempted, to
  \<open>lead_report_<date>.html\<close>, and its content is the report string itself, character for
  character; the payload given to SMTP, when a send is attempted, is that same string. When
  delivery succeeds no file is written. \<open>send_email\<close> itself fails only when delivery failed and
  the write of the file raised.
\<close>

theorem delivery_fallback:
  "(delivery_fails w html_content \<longrightarrow>
      file_writes (snd (send_email w html_content)) =
        [(''lead_report_'' @ today_ymd w @ ''.html'', html_content)])
   \<and> (\<not> delivery_fails w html_content \<longrightarrow>
      file_writes (snd (send_email w html_content)) = [] \<and> fst (send_email w html_content) = Inr ())
   \<and> (\<forall>payload \<in> set (smtp_payloads (snd (send_email w html_content))). payload = html_content)
   \<and> (\<forall>e. fst (send_email w html_content) = Inl e \<longrightarrow>
         delivery_fails w html_content \<and>
         file_system w (''lead_report_'' @ today_ymd w @ ''.html'') html_content = Some e)"
proof -
  obtain result effects where s: "save_to_file w html_content = (result, effects)"
    by (cases "save_to_file w html_content")
  from save_to_file_writes[of w html_content] s
  have fw: "file_writes effects = [(''lead_report_'' @ today_ymd w @ ''.html'', html_content)]"
    and sp: "smtp_payloads effects = []" by simp_all
  from save_to_file_result[of w html_content] s
  have re: "\<And>e. result = Inl e \<longleftrightarrow>
     file_system w (''lead_report_'' @ today_ymd w @ ''.html'') html_content = Some e" by simp
  show ?thesis
  proof (cases "truthy (GMAIL_APP_PASSWORD w)")
    case False
    then show ?thesis
      by (simp add: send_email_def delivery_fails_def s fw sp re)
  next
    case True
    show ?thesis
    proof (cases "smtp w (''Non-Slip Leads - '' @ today_long w) html_content")
      case None
      with True show ?thesis
        by (simp add: send_email_def delivery_fails_def Let_def)
    next
      case (Some e)
      with True show ?thesis
        by (simp add: send_email_def delivery_fails_def Let_def s fw sp re)
    qed
  qed
qed

theorem delivery_fallback_witness:
  "delivery_fails no_password_world ''<html>report</html>''
   \<and> file_writes (snd (send_email no_password_world ''<html>report</html>'')) =
        [(''lead_report_20250301.html'', ''<html>report</html>'')]
   \<and> delivery_fails smtp_down_world ''<html>report</html>''
   \<and> file_writes (snd (send_email smtp_down_world ''<html>report</html>'')) =
        [(''lead_report_20250301.html'', ''<html>report</html>'')]
   \<and> smtp_payloads (snd (send_email smtp_down_world ''<html>report</html>'')) =
        [''<html>report</html>'']"
proof -
  note t1 = delivery_fallback[of no_password_world "''<html>report</html>''"]
  note t2 = delivery_fallback[of smtp_down_world "''<html>report</html>''"]
  have f1: "delivery_fails no_password_world ''<html>report</html>''"
    by (simp add: delivery_fails_def no_password_world_def truthy_def)
  have f2: "delivery_fails smtp_down_world ''<html>report</html>''"
    by (simp add: delivery_fails_def smtp_down_world_def truthy_def)
  from t1 f1 have w1: "file_writes (snd (send_email no_password_world ''<html>report</html>'')) =
        [(''lead_report_'' @ today_ymd no_password_world @ ''.html'', ''<html>report</html>'')]"
    by (elim conjE) simp
  from t2 f2 have w2: "file_writes (snd (send_email smtp_down_world ''<html>report</html>'')) =
        [(''lead_report_'' @ today_ymd smtp_down_world @ ''.html'', ''<html>report</html>'')]"
    by (elim conjE) simp
  have p: "smtp_payloads (snd (send_email smtp_down_world ''<html>report</html>'')) =
        [''<html>report</html>'']"
    by (simp add: send_email_def smtp_down_world_def truthy_def save_to_file_def Let_def)
  from w1 have w1': "file_writes (snd (send_email no_password_world ''<html>report</html>'')) =
        [(''lead_report_20250301.html'', ''<html>report</html>'')]"
    by (simp add: no_password_world_def)
  from w2 have w2': "file_writes (snd (send_email smtp_down_world ''<html>report</html>'')) =
        [(''lead_report_20250301.html'', ''<html>report</html>'')]"
    by (simp add: smtp_down_world_def)
  show ?thesis by (intro conjI f1 w1' f2 w2' p)
qed

subsection \<open>C7: placeholders in the rendered entry\<close>

text \<open>
  Claim C7 fails for \<open>LeadMonitor._format_permit_html\<close>. A permit without \<open>phone\<close> and
  \<open>website\<close> is rendered with no Phone and no Website line at all, and a field that is present
  and empty is rendered as the empty string, not as \<open>N/A\<close>.
\<close>

theorem report_placeholder_counterexample:
  \<open>map_of bare_permit ''phone'' = None
   \<and> \<not> sublist ''Phone'' (format_permit_html bare_permit)
   \<and> map_of bare_permit ''website'' = None
   \<and> \<not> sublist ''Website'' (format_permit_html bare_permit)
   \<and> map_of bare_permit ''name'' = Some ''''
   \<and> sublist ''<span class="label">Business:</span> </div>'' (format_permit_html bare_permit)\<close>
  by code_simp

text \<open>
  Claim C7, amended. For every permit, the entry is the template of nine lines: Business,
  Address, City with County, Project Type, Permit Date and Industry, then the Phone line, the
  Website line, and Estimated Value. The seven fields other than Phone and Website are always
  shown, each with the field's value when the key is present (also when the value is empty)
  and with \<open>N/A\<close> when the key is missing. The Phone line is shown, with the phone, when
  \<open>phone\<close> is present and not empty, and is left blank otherwise; the Website line is shown,
  as a link to the website, when \<open>website\<close> is present and not empty, and is left blank
  otherwise; the one does not depend on the other. For every news lead, the entry of
  \<open>format_leads_for_email\<close> shows title, description, date and matched keyword with \<open>N/A\<close>
  for a missing key, and the link with \<open>#\<close> for a missing url.
\<close>

theorem report_placeholders:
  \<open>sublist (field_html ''Business'' (get permit ''name'' ''N/A'')) (format_permit_html permit)
   \<and> sublist (field_html ''Address'' (get permit ''address'' ''N/A'')) (format_permit_html permit)
   \<and> sublist (field_html ''City'' (get permit ''city'' ''N/A'' @ '', '' @ get permit ''county'' ''N/A'' @ '' County''))
        (format_permit_html permit)
   \<and> sublist (field_html ''Project Type'' (get permit ''project_type'' ''N/A'')) (format_permit_html permit)
   \<and> sublist (field_html ''Permit Date'' (get permit ''date'' ''N/A'')) (format_permit_html permit)
   \<and> sublist (field_html ''Industry'' (get permit ''industry'' ''N/A'')) (format_permit_html permit)
   \<and> sublist (field_html ''Estimated Value'' (''$'' @ get permit ''value'' ''N/A'')) (format_permit_html permit)
   \<and> (\<forall>phone. map_of permit ''phone'' = Some phone \<and> phone \<noteq> [] \<longrightarrow>
         sublist (field_html ''Phone'' phone) (format_permit_html permit))
   \<and> (\<forall>website. map_of permit ''website'' = Some website \<and> website \<noteq> [] \<longrightarrow>
         sublist (''<a href="'' @ website @ ''">'' @ website @ ''</a>'') (format_permit_html permit))
   \<and> format_permit_html permit =
       ''\<newline>        <div class="lead ''
         @ (if truthy (map_of permit ''priority'') then ''priority'' else []) @ ''">\<newline>''
       @ ''            '' @ field_html ''Business'' (get permit ''name'' ''N/A'') @ ''\<newline>''
       @ ''            '' @ field_html ''Address'' (get permit ''address'' ''N/A'') @ ''\<newline>''
       @ ''            '' @ field_html ''City''
             (get permit ''city'' ''N/A'' @ '', '' @ get permit ''county'' ''N/A'' @ '' County'') @ ''\<newline>''
       @ ''            '' @ field_html ''Project Type'' (get permit ''project_type'' ''N/A'') @ ''\<newline>''
       @ ''            '' @ field_html ''Permit Date'' (get permit ''date'' ''N/A'') @ ''\<newline>''
       @ ''            '' @ field_html ''Industry'' (get permit ''industry'' ''N/A'') @ ''\<newline>''
       @ ''            ''
         @ (if truthy (map_of permit ''phone'')
            then field_html ''Phone'' (get permit ''phone'' ''N/A'') else []) @ ''\<newline>''
       @ ''            ''
         @ (if truthy (map_of permit ''website'')
            then field_html ''Website''
                   (''<a href="'' @ get permit ''website'' ''None'' @ ''">''
                      @ get permit ''website'' ''None'' @ ''</a>'')
            else []) @ ''\<newline>''
       @ ''            '' @ field_html ''Estimated Value'' (''$'' @ get permit ''value'' ''N/A'') @ ''\<newline>''
       @ ''        </div>\<newline>        ''
   \<and> (\<forall>k. truthy (map_of permit k) \<longleftrightarrow> (\<exists>v. map_of permit k = Some v \<and> v \<noteq> []))
   \<and> (\<forall>k. map_of permit k = None \<longrightarrow> get permit k ''N/A'' = ''N/A'')
   \<and> (\<forall>k v. map_of permit k = Some v \<longrightarrow> get permit k ''N/A'' = v)
   \<and> sublist (''<div class="lead-title">'' @ get lead ''title'' ''N/A'' @ ''</div>'') (news_lead_html lead)
   \<and> sublist (detail_html ''Description'' (get lead ''description'' ''N/A'')) (news_lead_html lead)
   \<and> sublist (detail_html ''Date'' (get lead ''date'' ''N/A'')) (news_lead_html lead)
   \<and> sublist (detail_html ''Industry Match'' (get lead ''matched_keyword'' ''N/A'')) (news_lead_html lead)
   \<and> sublist (''<a href="'' @ get lead ''url'' ''#'' @ ''">'') (news_lead_html lead)\<close>
proof -
  note seg = format_permit_html_segments[of permit]
  have f1: "sublist (field_html ''Business'' (get permit ''name'' ''N/A'')) (format_permit_html permit)"
    unfolding seg by (rule permit_field_shown) simp
  have f2: "sublist (field_html ''Address'' (get permit ''address'' ''N/A'')) (format_permit_html permit)"
    unfolding seg by (rule permit_field_shown) simp
  have f3: "sublist (field_html ''City'' (get permit ''city'' ''N/A'' @ '', '' @ get permit ''county'' ''N/A'' @ '' County''))
        (format_permit_html permit)"
    unfolding seg by (rule permit_field_shown) simp
  have f4: "sublist (field_html ''Project Type'' (get permit ''project_type'' ''N/A'')) (format_permit_html permit)"
    unfolding seg by (rule permit_field_shown) simp
  have f5: "sublist (field_html ''Permit Date'' (get permit ''date'' ''N/A'')) (format_permit_html permit)"
    unfolding seg by (rule permit_field_shown) simp
  have f6: "sublist (field_html ''Industry'' (get permit ''industry'' ''N/A'')) (format_permit_html permit)"
    unfolding seg by (rule permit_field_shown) simp
  have f7: "sublist (field_html ''Estimated Value'' (''$'' @ get permit ''value'' ''N/A'')) (format_permit_html permit)"
    unfolding seg by (rule permit_field_shown) simp
  have f8: "\<forall>phone. map_of permit ''phone'' = Some phone \<and> phone \<noteq> [] \<longrightarrow>
         sublist (field_html ''Phone'' phone) (format_permit_html permit)"
  proof (intro allI impI)
    fix phone assume a: "map_of permit ''phone'' = Some phone \<and> phone \<noteq> []"
    then have t: "truthy (map_of permit ''phone'')" "get permit ''phone'' ''N/A'' = phone"
      by (simp_all add: truthy_def get_def)
    show "sublist (field_html ''Phone'' phone) (format_permit_html permit)"
      unfolding seg by (rule permit_field_shown) (simp add: t)
  qed
  have f9: \<open>\<forall>website. map_of permit ''website'' = Some website \<and> website \<noteq> [] \<longrightarrow>
         sublist (''<a href="'' @ website @ ''">'' @ website @ ''</a>'') (format_permit_html permit)\<close>
  proof (intro allI impI)
    fix website assume a: "map_of permit ''website'' = Some website \<and> website \<noteq> []"
    then have t: "truthy (map_of permit ''website'')" "get permit ''website'' ''None'' = website"
      by (simp_all add: truthy_def get_def)
    let ?seg = \<open>''            '' @ (''<div class="field"><span class="label">Website:</span> <a href="''
                               @ website @ ''">'' @ website @ ''</a></div>'') @ ''\<newline>''\<close>
    have \<open>?seg = (''            <div class="field"><span class="label">Website:</span> '')
               @ (''<a href="'' @ website @ ''">'' @ website @ ''</a>'') @ ''</div>\<newline>''\<close>
      by simp
    then have s: \<open>sublist (''<a href="'' @ website @ ''">'' @ website @ ''</a>'') ?seg\<close>
      by (metis sublist_appendI)
    show \<open>sublist (''<a href="'' @ website @ ''">'' @ website @ ''</a>'') (format_permit_html permit)\<close>
      unfolding seg by (rule sublist_segment[OF _ s]) (simp add: t)
  qed
  have f10: \<open>format_permit_html permit =
       ''\<newline>        <div class="lead ''
         @ (if truthy (map_of permit ''priority'') then ''priority'' else []) @ ''">\<newline>''
       @ ''            '' @ field_html ''Business'' (get permit ''name'' ''N/A'') @ ''\<newline>''
       @ ''            '' @ field_html ''Address'' (get permit ''address'' ''N/A'') @ ''\<newline>''
       @ ''            '' @ field_html ''City''
             (get permit ''city'' ''N/A'' @ '', '' @ get permit ''county'' ''N/A'' @ '' County'') @ ''\<newline>''
       @ ''            '' @ field_html ''Project Type'' (get permit ''project_type'' ''N/A'') @ ''\<newline>''
       @ ''            '' @ field_html ''Permit Date'' (get permit ''date'' ''N/A'') @ ''\<newline>''
       @ ''            '' @ field_html ''Industry'' (get permit ''industry'' ''N/A'') @ ''\<newline>''
       @ ''            ''
         @ (if truthy (map_of permit ''phone'')
            then field_html ''Phone'' (get permit ''phone'' ''N/A'') else []) @ ''\<newline>''
       @ ''            ''
         @ (if truthy (map_of permit ''website'')
            then field_html ''Website''
                   (''<a href="'' @ get permit ''website'' ''None'' @ ''">''
                      @ get permit ''website'' ''None'' @ ''</a>'')
            else []) @ ''\<newline>''
       @ ''            '' @ field_html ''Estimated Value'' (''$'' @ get permit ''value'' ''N/A'') @ ''\<newline>''
       @ ''        </div>\<newline>        ''\<close>
    unfolding seg by (simp add: field_html_def)
  have f11: "\<forall>k. truthy (map_of permit k) \<longleftrightarrow> (\<exists>v. map_of permit k = Some v \<and> v \<noteq> [])"
    by (simp add: truthy_def split: option.splits)
  have g1: "\<forall>k. map_of permit k = None \<longrightarrow> get permit k ''N/A'' = ''N/A''"
    by (simp add: get_def)
  have g2: "\<forall>k v. map_of permit k = Some v \<longrightarrow> get permit k ''N/A'' = v"
    by (simp add: get_def)
  note nseg = news_lead_html_segments[of lead]
  have n1: \<open>sublist (''<div class="lead-title">'' @ get lead ''title'' ''N/A'' @ ''</div>'') (news_lead_html lead)\<close>
    unfolding nseg by (rule news_field_shown) simp
  have n2: "sublist (detail_html ''Description'' (get lead ''description'' ''N/A'')) (news_lead_html lead)"
    unfolding nseg by (rule news_field_shown) simp
  have n3: "sublist (detail_html ''Date'' (get lead ''date'' ''N/A'')) (news_lead_html lead)"
    unfolding nseg by (rule news_field_shown) simp
  have n4: "sublist (detail_html ''Industry Match'' (get lead ''matched_keyword'' ''N/A'')) (news_lead_html lead)"
    unfolding nseg by (rule news_field_shown) simp
  have n5: \<open>sublist (''<a href="'' @ get lead ''url'' ''#'' @ ''">'') (news_lead_html lead)\<close>
    unfolding nseg by (rule sublist_segment[where seg = \<open>''                <div class="lead-detail">'' @ (''<a href="'' @ get lead ''url'' ''#'' @ ''">'') @
         ''Read full article '' @ [CHR 0xE2, CHR 0x86, CHR 0x92] @ ''</a></div>\<newline>''\<close>])
       (simp, rule sublist_appendI)
  show ?thesis by (intro conjI f1 f2 f3 f4 f5 f6 f7 f8 f9 f10 f11 g1 g2 n1 n2 n3 n4 n5)
qed

theorem report_placeholders_witness:
  \<open>sublist ''<span class="label">Business:</span> Acme Diner</div>'' (format_permit_html full_permit)
   \<and> sublist ''<span class="label">Address:</span> N/A</div>'' (format_permit_html full_permit)
   \<and> sublist ''<span class="label">Phone:</span> 555-0100</div>'' (format_permit_html full_permit)
   \<and> sublist ''<a href="http://acme.example">http://acme.example</a>'' (format_permit_html full_permit)
   \<and> \<not> truthy (map_of bare_permit ''phone'') \<and> \<not> truthy (map_of bare_permit ''website'')
   \<and> \<not> sublist ''Phone'' (format_permit_html bare_permit)
   \<and> truthy (map_of phone_only_permit ''phone'') \<and> \<not> truthy (map_of phone_only_permit ''website'')
   \<and> sublist ''<span class="label">Phone:</span> 555-0100</div>'' (format_permit_html phone_only_permit)
   \<and> \<not> sublist ''Website'' (format_permit_html phone_only_permit)\<close>
proof -
  note v = report_placeholders[of phone_only_permit "[]"]
  note t = report_placeholders[of full_permit "[]"]
  note u = report_placeholders[of bare_permit "[]"]
  from t have a: "sublist (field_html ''Business'' (get full_permit ''name'' ''N/A'')) (format_permit_html full_permit)"
    by (elim conjE)
  from t have b: "sublist (field_html ''Address'' (get full_permit ''address'' ''N/A'')) (format_permit_html full_permit)"
    by (elim conjE)
  from t have c: "\<forall>phone. map_of full_permit ''phone'' = Some phone \<and> phone \<noteq> [] \<longrightarrow>
         sublist (field_html ''Phone'' phone) (format_permit_html full_permit)"
    by (elim conjE)
  from t have d: \<open>\<forall>website. map_of full_permit ''website'' = Some website \<and> website \<noteq> [] \<longrightarrow>
         sublist (''<a href="'' @ website @ ''">'' @ website @ ''</a>'') (format_permit_html full_permit)\<close>
    by (elim conjE)
  have p: "map_of full_permit ''phone'' = Some ''555-0100'' \<and> ''555-0100'' \<noteq> []"
    by (simp add: full_permit_def)
  have w: "map_of full_permit ''website'' = Some ''http://acme.example'' \<and> ''http://acme.example'' \<noteq> []"
    by (simp add: full_permit_def)
  have s1: \<open>sublist ''<span class="label">Business:</span> Acme Diner</div>''
              (field_html ''Business'' (get full_permit ''name'' ''N/A''))\<close> by code_simp
  have s2: \<open>sublist ''<span class="label">Address:</span> N/A</div>''
              (field_html ''Address'' (get full_permit ''address'' ''N/A''))\<close> by code_simp
  have s3: \<open>sublist ''<span class="label">Phone:</span> 555-0100</div>''
              (field_html ''Phone'' ''555-0100'')\<close> by code_simp
  note 1 = sublist_order.order.trans[OF s1 a]
  note 2 = sublist_order.order.trans[OF s2 b]
  note 3 = sublist_order.order.trans[OF s3 c[rule_format, OF p]]
  from d[rule_format, OF w]
  have 4: \<open>sublist ''<a href="http://acme.example">http://acme.example</a>'' (format_permit_html full_permit)\<close>
    by simp
  have 5: "\<not> truthy (map_of bare_permit ''phone'')" "\<not> truthy (map_of bare_permit ''website'')"
    by (simp_all add: bare_permit_def truthy_def)
  have 6: "\<not> sublist ''Phone'' (format_permit_html bare_permit)" by code_simp
  from v have c': "\<forall>phone. map_of phone_only_permit ''phone'' = Some phone \<and> phone \<noteq> [] \<longrightarrow>
         sublist (field_html ''Phone'' phone) (format_permit_html phone_only_permit)"
    by (elim conjE)
  have p': "map_of phone_only_permit ''phone'' = Some ''555-0100'' \<and> ''555-0100'' \<noteq> []"
    by (simp add: phone_only_permit_def)
  have 7: "truthy (map_of phone_only_permit ''phone'')" "\<not> truthy (map_of phone_only_permit ''website'')"
    by (simp_all add: phone_only_permit_def truthy_def)
  note 8 = sublist_order.order.trans[OF s3 c'[rule_format, OF p']]
  have 9: "\<not> sublist ''Website'' (format_permit_html phone_only_permit)" by code_simp
  show ?thesis by (intro conjI 1 2 3 4 5 6 7 8 9)
qed

subsection \<open>C8: what a filter stage writes\<close>




subsection \<open>C9: priorities\<close>

text \<open>
  Claim C9 fails for the news leads: \<open>search_google_news\<close> creates them without a
  \<open>priority\<close> field, and no later stage adds one. A news mention that leaves \<open>run_full_scan\<close>
  has no priority, so it is neither \<open>Medium\<close> nor \<open>Low\<close>.
\<close>

theorem priority_counterexample:
  "snd (fst (run_full_scan example_news_get id example_hotel_response)) = [0, 1]
   \<and> map_of (fst (fst (run_full_scan example_news_get id example_hotel_response)) 0) ''type''
       = Some ''News Mention''
   \<and> map_of (fst (fst (run_full_scan example_news_get id example_hotel_response)) 0) ''priority''
       = None"
  by code_simp

text \<open>
  Claim C9, amended. Every incident that \<open>search_osha_data\<close> creates has priority \<open>High\<close>, and
  every lead that \<open>search_google_news\<close> creates has no priority. The industry filter of the
  production monitor changes the priority of no lead; every lead collected by \<open>run_full_scan\<close>
  has after the scan the priority it was created with; and every lead in the result of
  \<open>run_full_scan\<close> is either an OSHA incident with priority \<open>High\<close> or a news mention without a
  priority. \<open>filter_slip_fall_incidents\<close> keeps, in input order, the incidents whose
  lower-cased violations and hazards text contains one of its keywords, and every incident it
  keeps has priority \<open>High\<close>.
  \<open>save_to_csv\<close> writes no file when there are neither permits nor incidents, and otherwise
  writes the file \<open>leads_<date>.csv\<close> with one row for each permit, of type \<open>Permit\<close> with
  priority \<open>Medium\<close>, followed by one row for each OSHA incident, of type \<open>OSHA Incident\<close> with
  priority \<open>High\<close>. A news mention in the result of \<open>run_full_scan\<close> is thus never \<open>High\<close>, but
  it is not \<open>Medium\<close> or \<open>Low\<close> either: it has no priority at all.
\<close>

theorem priority_assignment:
  "(\<forall>incident \<in> set (fst (search_osha_data response state)).
       map_of incident ''priority'' = Some ''High'')
   \<and> (\<forall>lead \<in> set (fst (search_google_news http_get quote query location)).
       map_of lead ''priority'' = None)
   \<and> (\<forall>r \<in> set (snd (fst (run_full_scan http_get quote response))).
       (map_of (fst (fst (run_full_scan http_get quote response)) r) ''source'' = Some ''OSHA'' \<and>
        map_of (fst (fst (run_full_scan http_get quote response)) r) ''priority'' = Some ''High'')
     \<or> (map_of (fst (fst (run_full_scan http_get quote response)) r) ''source'' = Some ''Google News'' \<and>
        map_of (fst (fst (run_full_scan http_get quote response)) r) ''priority'' = None))
   \<and> (\<forall>r \<in> set (snd (filter_slip_fall_incidents st incidents)).
       map_of (fst (filter_slip_fall_incidents st incidents) r) ''priority'' = Some ''High'')
   \<and> fst (save_to_csv today ymd permits osha_incidents) =
       (if permits = [] \<and> osha_incidents = [] then None
        else Some (''leads_'' @ ymd @ ''.csv'',
                   map (permit_row today) permits @ map (incident_row today) osha_incidents))
   \<and> (\<forall>permit. map_of (permit_row today permit) ''type'' = Some (Some ''Permit'') \<and>
                map_of (permit_row today permit) ''priority'' = Some (Some ''Medium''))
   \<and> (\<forall>incident. map_of (incident_row today incident) ''type'' = Some (Some ''OSHA Incident'') \<and>
                map_of (incident_row today incident) ''priority'' = Some (Some ''High''))
   \<and> length (exported_rows (fst (save_to_csv today ymd permits osha_incidents))) =
       length permits + length osha_incidents
   \<and> (\<forall>i < length permits.
         map_of (exported_rows (fst (save_to_csv today ymd permits osha_incidents)) ! i) ''type''
           = Some (Some ''Permit'') \<and>
         map_of (exported_rows (fst (save_to_csv today ymd permits osha_incidents)) ! i) ''priority''
           = Some (Some ''Medium'') \<and>
         map_of (exported_rows (fst (save_to_csv today ymd permits osha_incidents)) ! i) ''name''
           = Some (map_of (permits ! i) ''name''))
   \<and> (\<forall>j < length osha_incidents.
         map_of (exported_rows (fst (save_to_csv today ymd permits osha_incidents)) ! (length permits + j))
             ''type'' = Some (Some ''OSHA Incident'') \<and>
         map_of (exported_rows (fst (save_to_csv today ymd permits osha_incidents)) ! (length permits + j))
             ''priority'' = Some (Some ''High'') \<and>
         map_of (exported_rows (fst (save_to_csv today ymd permits osha_incidents)) ! (length permits + j))
             ''name'' = Some (map_of (osha_incidents ! j) ''name''))
   \<and> snd (filter_slip_fall_incidents st incidents) = filter (\<lambda>r. slip_fall_hit (st r)) incidents
   \<and> (\<forall>r. map_of (fst (prod_filter_by_target_industries st leads keywords) r) ''priority''
            = map_of (st r) ''priority'')
   \<and> (\<forall>r < length (fst (search_google_news http_get quote ''new business opening'' ''Massachusetts'')
                     @ fst (search_osha_data response ''MA'')).
         map_of (fst (fst (run_full_scan http_get quote response)) r) ''priority'' =
         map_of ((fst (search_google_news http_get quote ''new business opening'' ''Massachusetts'')
                  @ fst (search_osha_data response ''MA'')) ! r) ''priority'')"
proof -
  have a: "\<forall>incident \<in> set (fst (search_osha_data response state)).
       map_of incident ''priority'' = Some ''High''"
    using search_osha_data_shape[of _ response state] osha_incident_fields(2) by metis
  have b: "\<forall>lead \<in> set (fst (search_google_news http_get quote query location)).
       map_of lead ''priority'' = None"
    using search_google_news_shape[of _ http_get quote query location] news_lead_fields(2) by metis
  have c: "\<forall>r \<in> set (snd (fst (run_full_scan http_get quote response))).
       (map_of (fst (fst (run_full_scan http_get quote response)) r) ''source'' = Some ''OSHA'' \<and>
        map_of (fst (fst (run_full_scan http_get quote response)) r) ''priority'' = Some ''High'')
     \<or> (map_of (fst (fst (run_full_scan http_get quote response)) r) ''source'' = Some ''Google News'' \<and>
        map_of (fst (fst (run_full_scan http_get quote response)) r) ''priority'' = None)"
  proof
    fix r assume "r \<in> set (snd (fst (run_full_scan http_get quote response)))"
    from run_full_scan_sources[OF this]
    show "(map_of (fst (fst (run_full_scan http_get quote response)) r) ''source'' = Some ''OSHA'' \<and>
        map_of (fst (fst (run_full_scan http_get quote response)) r) ''priority'' = Some ''High'')
     \<or> (map_of (fst (fst (run_full_scan http_get quote response)) r) ''source'' = Some ''Google News'' \<and>
        map_of (fst (fst (run_full_scan http_get quote response)) r) ''priority'' = None)"
    proof (elim disjE exE)
      fix q item
      assume h: "\<forall>k. k \<noteq> ''matched_keyword'' \<longrightarrow>
            map_of (fst (fst (run_full_scan http_get quote response)) r) k = map_of (news_lead q item) k"
      from h[rule_format, of "''source''"] h[rule_format, of "''priority''"]
      show ?thesis by (simp add: news_lead_fields)
    next
      fix d
      assume h: "\<forall>k. k \<noteq> ''matched_keyword'' \<longrightarrow>
            map_of (fst (fst (run_full_scan http_get quote response)) r) k = map_of (osha_incident ''MA'' d) k"
      from h[rule_format, of "''source''"] h[rule_format, of "''priority''"]
      show ?thesis by (simp add: osha_incident_fields)
    qed
  qed
  have d: "\<forall>r \<in> set (snd (filter_slip_fall_incidents st incidents)).
       map_of (fst (filter_slip_fall_incidents st incidents) r) ''priority'' = Some ''High''"
  proof -
    have "slip_fall_loop st incidents [] =
        (fst (filter_slip_fall_incidents st incidents), snd (filter_slip_fall_incidents st incidents))"
      by (simp add: filter_slip_fall_incidents_def)
    from slip_fall_loop_kept[OF this] show ?thesis by simp
  qed
  let ?rows = "map (permit_row today) permits @ map (incident_row today) osha_incidents"
  have e: "fst (save_to_csv today ymd permits osha_incidents) =
       (if permits = [] \<and> osha_incidents = [] then None
        else Some (''leads_'' @ ymd @ ''.csv'', ?rows))"
    by (simp add: save_to_csv_def Let_def)
  have x: "exported_rows (fst (save_to_csv today ymd permits osha_incidents)) = ?rows"
    unfolding e by (simp add: exported_rows_def)
  have f: "\<forall>permit. map_of (permit_row today permit) ''type'' = Some (Some ''Permit'') \<and>
                map_of (permit_row today permit) ''priority'' = Some (Some ''Medium'')"
    by (simp add: permit_row_def)
  have g: "\<forall>incident. map_of (incident_row today incident) ''type'' = Some (Some ''OSHA Incident'') \<and>
                map_of (incident_row today incident) ''priority'' = Some (Some ''High'')"
    by (simp add: incident_row_def)
  have e2: "length (exported_rows (fst (save_to_csv today ymd permits osha_incidents))) =
       length permits + length osha_incidents"
    unfolding x by simp
  have e3: "\<forall>i < length permits.
         map_of (exported_rows (fst (save_to_csv today ymd permits osha_incidents)) ! i) ''type''
           = Some (Some ''Permit'') \<and>
         map_of (exported_rows (fst (save_to_csv today ymd permits osha_incidents)) ! i) ''priority''
           = Some (Some ''Medium'') \<and>
         map_of (exported_rows (fst (save_to_csv today ymd permits osha_incidents)) ! i) ''name''
           = Some (map_of (permits ! i) ''name'')"
    unfolding x by (simp add: nth_append permit_row_def)
  have e4: "\<forall>j < length osha_incidents.
         map_of (exported_rows (fst (save_to_csv today ymd permits osha_incidents)) ! (length permits + j))
             ''type'' = Some (Some ''OSHA Incident'') \<and>
         map_of (exported_rows (fst (save_to_csv today ymd permits osha_incidents)) ! (length permits + j))
             ''priority'' = Some (Some ''High'') \<and>
         map_of (exported_rows (fst (save_to_csv today ymd permits osha_incidents)) ! (length permits + j))
             ''name'' = Some (map_of (osha_incidents ! j) ''name'')"
    unfolding x by (simp add: nth_append incident_row_def)
  have k: "snd (filter_slip_fall_incidents st incidents) = filter (\<lambda>r. slip_fall_hit (st r)) incidents"
    by (simp add: filter_slip_fall_incidents_def slip_fall_loop_list)
  have q: "\<forall>r. map_of (fst (prod_filter_by_target_industries st leads keywords) r) ''priority''
            = map_of (st r) ''priority''"
  proof -
    let ?p = "prod_filter_by_target_industries st leads keywords"
    have pt: "lower (prod_lead_text (setitem d ''matched_keyword'' k)) = lower (prod_lead_text d)" for d k
      by (simp add: prod_text_setitem)
    have rp: "industries_loop (\<lambda>lead. lower (prod_lead_text lead)) keywords st leads [] = (fst ?p, snd ?p)"
      by (simp add: prod_filter_by_target_industries_def)
    from industries_loop_writes[where text_of = "\<lambda>lead. lower (prod_lead_text lead)", OF pt rp]
    have "\<forall>r k. k \<noteq> ''matched_keyword'' \<longrightarrow> map_of (fst ?p r) k = map_of (st r) k"
      by (rule conjunct1)
    then show ?thesis by simp
  qed
  have s: "\<forall>r < length (fst (search_google_news http_get quote ''new business opening'' ''Massachusetts'')
                     @ fst (search_osha_data response ''MA'')).
         map_of (fst (fst (run_full_scan http_get quote response)) r) ''priority'' =
         map_of ((fst (search_google_news http_get quote ''new business opening'' ''Massachusetts'')
                  @ fst (search_osha_data response ''MA'')) ! r) ''priority''"
    by (intro allI impI run_full_scan_priority)
  show ?thesis by (intro conjI a b c d e f g e2 e3 e4 k q s)
qed

theorem priority_assignment_witness:
  "snd (fst (run_full_scan example_news_get id example_hotel_response)) = [0, 1]
   \<and> map_of (fst (fst (run_full_scan example_news_get id example_hotel_response)) 1) ''source''
       = Some ''OSHA''
   \<and> map_of (fst (fst (run_full_scan example_news_get id example_hotel_response)) 1) ''priority''
       = Some ''High''
   \<and> snd (filter_slip_fall_incidents example_incident_store [0, 1]) = [0]
   \<and> map_of (fst (filter_slip_fall_incidents example_incident_store [0, 1]) 0) ''priority''
       = Some ''High''
   \<and> map_of (incident_row ''2025-03-01'' [(''name'', ''Acme'')]) ''priority'' = Some (Some ''High'')
   \<and> map_of (permit_row ''2025-03-01'' [(''name'', ''Diner'')]) ''priority'' = Some (Some ''Medium'')
   \<and> length (exported_rows (fst (save_to_csv ''2025-03-01'' ''20250301''
         [[(''name'', ''Diner'')]] [[(''name'', ''Acme'')]]))) = 2
   \<and> map_of (exported_rows (fst (save_to_csv ''2025-03-01'' ''20250301''
         [[(''name'', ''Diner'')]] [[(''name'', ''Acme'')]])) ! 0) ''priority'' = Some (Some ''Medium'')
   \<and> map_of (exported_rows (fst (save_to_csv ''2025-03-01'' ''20250301''
         [[(''name'', ''Diner'')]] [[(''name'', ''Acme'')]])) ! 1) ''priority'' = Some (Some ''High'')
   \<and> map_of (exported_rows (fst (save_to_csv ''2025-03-01'' ''20250301''
         [[(''name'', ''Diner'')]] [[(''name'', ''Acme'')]])) ! 1) ''name'' = Some (Some ''Acme'')"
proof -
  let ?scan = "run_full_scan example_news_get id example_hotel_response"
  let ?slip = "filter_slip_fall_incidents example_incident_store [0, 1]"
  let ?csv = "exported_rows (fst (save_to_csv ''2025-03-01'' ''20250301''
         [[(''name'', ''Diner'')]] [[(''name'', ''Acme'')]]))"
  note t = priority_assignment[of example_hotel_response "''MA''" example_news_get id
      "''new business opening''" "''Massachusetts''" example_incident_store "[0, 1]"
      "''2025-03-01''" "''20250301''" "[[(''name'', ''Diner'')]]" "[[(''name'', ''Acme'')]]"
      "[0, 1]" target_keywords]
  from t have c: "\<forall>r \<in> set (snd (fst ?scan)).
       (map_of (fst (fst ?scan) r) ''source'' = Some ''OSHA'' \<and>
        map_of (fst (fst ?scan) r) ''priority'' = Some ''High'')
     \<or> (map_of (fst (fst ?scan) r) ''source'' = Some ''Google News'' \<and>
        map_of (fst (fst ?scan) r) ''priority'' = None)"
    by (elim conjE)
  from t have d: "\<forall>r \<in> set (snd ?slip). map_of (fst ?slip r) ''priority'' = Some ''High''"
    by (elim conjE)
  have k: "snd (fst ?scan) = [0, 1]" by code_simp
  have s: "map_of (fst (fst ?scan) 1) ''source'' = Some ''OSHA''" by code_simp
  from k have "(1::nat) \<in> set (snd (fst ?scan))" by simp
  with c have "(map_of (fst (fst ?scan) 1) ''source'' = Some ''OSHA'' \<and>
        map_of (fst (fst ?scan) 1) ''priority'' = Some ''High'')
     \<or> (map_of (fst (fst ?scan) 1) ''source'' = Some ''Google News'' \<and>
        map_of (fst (fst ?scan) 1) ''priority'' = None)" by (rule bspec)
  with s have p: "map_of (fst (fst ?scan) 1) ''priority'' = Some ''High''" by simp
  have k2: "snd ?slip = [0]" by code_simp
  then have "(0::nat) \<in> set (snd ?slip)" by simp
  with d have p2: "map_of (fst ?slip 0) ''priority'' = Some ''High''" by (rule bspec)
  from t have f: "\<forall>permit. map_of (permit_row ''2025-03-01'' permit) ''type'' = Some (Some ''Permit'') \<and>
                map_of (permit_row ''2025-03-01'' permit) ''priority'' = Some (Some ''Medium'')"
    by (elim conjE)
  from t have g: "\<forall>incident. map_of (incident_row ''2025-03-01'' incident) ''type'' = Some (Some ''OSHA Incident'') \<and>
                map_of (incident_row ''2025-03-01'' incident) ''priority'' = Some (Some ''High'')"
    by (elim conjE)
  from g have csv1: "map_of (incident_row ''2025-03-01'' [(''name'', ''Acme'')]) ''priority'' = Some (Some ''High'')"
    by blast
  from f have csv2: "map_of (permit_row ''2025-03-01'' [(''name'', ''Diner'')]) ''priority'' = Some (Some ''Medium'')"
    by blast
  from t have e2: "length ?csv = length [[(''name'', ''Diner'')]] + length [[(''name'', ''Acme'')]]"
    by (elim conjE)
  then have n: "length ?csv = 2" by simp
  from t have e3: "\<forall>i < length [[(''name'', ''Diner'')]].
         map_of (?csv ! i) ''type'' = Some (Some ''Permit'') \<and>
         map_of (?csv ! i) ''priority'' = Some (Some ''Medium'') \<and>
         map_of (?csv ! i) ''name'' = Some (map_of ([[(''name'', ''Diner'')]] ! i) ''name'')"
    by (elim conjE)
  from t have e4: "\<forall>j < length [[(''name'', ''Acme'')]].
         map_of (?csv ! (length [[(''name'', ''Diner'')]] + j)) ''type'' = Some (Some ''OSHA Incident'') \<and>
         map_of (?csv ! (length [[(''name'', ''Diner'')]] + j)) ''priority'' = Some (Some ''High'') \<and>
         map_of (?csv ! (length [[(''name'', ''Diner'')]] + j)) ''name''
           = Some (map_of ([[(''name'', ''Acme'')]] ! j) ''name'')"
    by (elim conjE)
  from e3[rule_format, of 0] have r0: "map_of (?csv ! 0) ''priority'' = Some (Some ''Medium'')"
    by simp
  from e4[rule_format, of 0] have r1: "map_of (?csv ! 1) ''priority'' = Some (Some ''High'')"
    and r2: "map_of (?csv ! 1) ''name'' = Some (Some ''Acme'')"
    by simp_all
  show ?thesis by (intro conjI k s p k2 p2 csv1 csv2 n r0 r1 r2)
qed

subsection \<open>C10: what the OSHA collector returns\<close>

text \<open>
  Claim C10. \<open>ProductionLeadMonitor.search_osha_data\<close>, for every answer of the request and
  every state argument: at most 20 incidents are returned; every returned incident has source
  \<open>OSHA\<close>, type \<open>Safety Incident\<close>, priority \<open>High\<close>, the state argument as its state, and a
  description that contains \<open>MA\<close> or \<open>Massachusetts\<close> as written; and for an answer with status
  200 the incidents are exactly those made, in page order, from the first 20 divs that could be
  read and whose text contains one of the two, so a div whose text contains neither is left
  out.
\<close>

theorem osha_collection_postcondition:
  "length (fst (search_osha_data response state)) \<le> 20
   \<and> (\<forall>incident \<in> set (fst (search_osha_data response state)).
         map_of incident ''source'' = Some ''OSHA''
       \<and> map_of incident ''type'' = Some ''Safety Incident''
       \<and> map_of incident ''priority'' = Some ''High''
       \<and> map_of incident ''state'' = Some state
       \<and> (\<exists>text. map_of incident ''description'' = Some text
              \<and> (sublist ''MA'' text \<or> sublist ''Massachusetts'' text)))
   \<and> (\<forall>incident_divs. response = Inr (200, incident_divs) \<longrightarrow>
         fst (search_osha_data response state) =
           map (osha_incident state)
             (filter (\<lambda>d. sublist ''MA'' (get_text d) \<or> sublist ''Massachusetts'' (get_text d))
                (readable (take 20 incident_divs))))"
proof -
  let ?P = "\<lambda>d. sublist ''MA'' (get_text d) \<or> sublist ''Massachusetts'' (get_text d)"
  have len: "length (fst (search_osha_data response state)) \<le> 20"
  proof -
    from search_osha_data_cases[of response state] show ?thesis
    proof
      assume "fst (search_osha_data response state) = []"
      then show ?thesis by simp
    next
      assume "\<exists>incident_divs. response = Inr (200, incident_divs)"
      then obtain ds where r: "response = Inr (200, ds)" by blast
      have "length (filter ?P (readable (take 20 ds))) \<le> length (readable (take 20 ds))"
        by (rule length_filter_le)
      also have "\<dots> \<le> length (take 20 ds)" by (rule length_readable)
      also have "\<dots> \<le> 20" by simp
      finally show ?thesis by (simp add: r search_osha_data_200)
    qed
  qed
  have fields: "map_of incident ''source'' = Some ''OSHA''
       \<and> map_of incident ''type'' = Some ''Safety Incident''
       \<and> map_of incident ''priority'' = Some ''High''
       \<and> map_of incident ''state'' = Some state
       \<and> (\<exists>text. map_of incident ''description'' = Some text
              \<and> (sublist ''MA'' text \<or> sublist ''Massachusetts'' text))"
    if "incident \<in> set (fst (search_osha_data response state))" for incident
  proof -
    from that search_osha_data_cases[of response state]
    obtain ds where r: "response = Inr (200, ds)" by auto
    with that obtain d where d: "incident = osha_incident state d" "?P d"
      by (auto simp: search_osha_data_200)
    then show ?thesis by (simp add: osha_incident_def)
  qed
  have eq: "\<forall>incident_divs. response = Inr (200, incident_divs) \<longrightarrow>
         fst (search_osha_data response state) =
           map (osha_incident state) (filter ?P (readable (take 20 incident_divs)))"
    by (simp add: search_osha_data_200)
  from len fields eq show ?thesis by blast
qed

theorem osha_collection_postcondition_witness:
  "fst (search_osha_data example_osha_response ''MA'') =
     [[(''source'', ''OSHA''), (''company'', ''Acme Diner''),
       (''description'', ''Acme Diner, Boston, MA: employee slipped''),
       (''type'', ''Safety Incident''), (''priority'', ''High''), (''state'', ''MA'')]]
   \<and> length (fst (search_osha_data example_osha_response ''MA'')) \<le> 20
   \<and> map_of (hd (fst (search_osha_data example_osha_response ''MA''))) ''priority'' = Some ''High''"
proof -
  note t = osha_collection_postcondition[of example_osha_response "''MA''"]
  have v: "fst (search_osha_data example_osha_response ''MA'') =
     [[(''source'', ''OSHA''), (''company'', ''Acme Diner''),
       (''description'', ''Acme Diner, Boston, MA: employee slipped''),
       (''type'', ''Safety Incident''), (''priority'', ''High''), (''state'', ''MA'')]]"
    by code_simp
  from t have l: "length (fst (search_osha_data example_osha_response ''MA'')) \<le> 20"
    by (rule conjunct1)
  from t have f: "\<forall>incident \<in> set (fst (search_osha_data example_osha_response ''MA'')).
         map_of incident ''source'' = Some ''OSHA''
       \<and> map_of incident ''type'' = Some ''Safety Incident''
       \<and> map_of incident ''priority'' = Some ''High''
       \<and> map_of incident ''state'' = Some ''MA''
       \<and> (\<exists>text. map_of incident ''description'' = Some text
              \<and> (sublist ''MA'' text \<or> sublist ''Massachusetts'' text))"
    by (elim conjE)
  have "hd (fst (search_osha_data example_osha_response ''MA''))
          \<in> set (fst (search_osha_data example_osha_response ''MA''))"
    unfolding v by simp
  with f have p: "map_of (hd (fst (search_osha_data example_osha_response ''MA''))) ''priority''
      = Some ''High''" by blast
  show ?thesis by (intro conjI v l p)
qed

end
